theory Spec2Isabelle
  imports Complex_Main "HOL-Library.AList" "HOL-Library.Char_ord" "HOL-Library.List_Lexorder"
begin

section \<open>JSON values as the Python code handles them\<close>

text \<open>
  Every value the controllers, the worker and the indexer touch is what \<^verbatim>\<open>json.loads\<close>
  returns: \<^verbatim>\<open>None\<close>, a bool, an int, a float, a str, a list or a dict with str keys.
  A dict keeps its insertion order, so it is an association list; Python keeps its keys
  distinct (\<open>wf_json\<close> below). A float is carried as the text \<^verbatim>\<open>json.dumps\<close> writes for
  it (\<^verbatim>\<open>float.__repr__\<close>, or \<^verbatim>\<open>NaN\<close>, \<^verbatim>\<open>Infinity\<close>, \<^verbatim>\<open>-Infinity\<close>). A str is a list of
  code points below 256.
\<close>

datatype json =
    JNull
  | JBool bool
  | JInt int
  | JFloat string
  | JStr string
  | JArr "json list"
  | JObj "(string \<times> json) list"

fun wf_json :: "json \<Rightarrow> bool" where
  "wf_json (JArr xs) = list_all wf_json xs"
| "wf_json (JObj kvs) = (distinct (map fst kvs) \<and> list_all (\<lambda>kv. wf_json (snd kv)) kvs)"
| "wf_json _ = True"

text \<open>Python truthiness (\<^verbatim>\<open>if x\<close>, \<^verbatim>\<open>not x\<close>, \<^verbatim>\<open>x or y\<close>).\<close>

fun py_truthy :: "json \<Rightarrow> bool" where
  "py_truthy JNull = False"
| "py_truthy (JBool b) = b"
| "py_truthy (JInt n) = (n \<noteq> 0)"
| "py_truthy (JFloat r) = (r \<noteq> ''0.0'' \<and> r \<noteq> ''-0.0'')"
| "py_truthy (JStr s) = (s \<noteq> [])"
| "py_truthy (JArr xs) = (xs \<noteq> [])"
| "py_truthy (JObj kvs) = (kvs \<noteq> [])"

text \<open>\<^verbatim>\<open>x or y\<close>: the first operand when it is truthy, the second otherwise.\<close>

definition py_or :: "json \<Rightarrow> json \<Rightarrow> json" where
  "py_or x y = (if py_truthy x then x else y)"

text \<open>The exception classes the handlers of this program tell apart.\<close>

datatype exn =
    ESConnError
  | TransportError
  | NotFoundError
  | ValueError
  | KeyError
  | AttributeError
  | TypeError
  | OverflowError
  | QueueError
  | FloatArith

text \<open>
  \<open>ESConnError\<close>, \<open>TransportError\<close> and \<open>NotFoundError\<close> are raised by the index client,
  \<open>QueueError\<close> by the queue client when the broker is unreachable, the others by the
  Python code itself. \<open>FloatArith\<close> is no exception of the program: it marks the one
  computation the model does not follow, arithmetic on a float \<^verbatim>\<open>attempt\<close> counter.
\<close>

text \<open>\<^verbatim>\<open>d.get(k)\<close>: \<^verbatim>\<open>None\<close> for a missing key; only a dict has the method.\<close>

fun py_get :: "json \<Rightarrow> string \<Rightarrow> exn + json" where
  "py_get (JObj kvs) k = Inr (case map_of kvs k of None \<Rightarrow> JNull | Some v \<Rightarrow> v)"
| "py_get _ k = Inl AttributeError"

text \<open>\<^verbatim>\<open>d.get(k, default)\<close>.\<close>

fun py_get_default :: "json \<Rightarrow> string \<Rightarrow> json \<Rightarrow> exn + json" where
  "py_get_default (JObj kvs) k d = Inr (case map_of kvs k of None \<Rightarrow> d | Some v \<Rightarrow> v)"
| "py_get_default _ k d = Inl AttributeError"

text \<open>\<^verbatim>\<open>{**a, **b}\<close> on the fields of two dicts: the fields of \<open>b\<close> are stored one by one,
  a key already there keeps its place, a new key goes to the end.\<close>

definition dict_merge :: "(string \<times> json) list \<Rightarrow> (string \<times> json) list \<Rightarrow> (string \<times> json) list" where
  "dict_merge a b = fold (\<lambda>kv. AList.update (fst kv) (snd kv)) b a"

text \<open>Iterating a value with \<^verbatim>\<open>for item in v\<close>: a list gives its elements, a dict its keys,
  a str its characters; nothing else is iterable.\<close>

fun py_iter :: "json \<Rightarrow> exn + json list" where
  "py_iter (JArr xs) = Inr xs"
| "py_iter (JObj kvs) = Inr (map (\<lambda>kv. JStr (fst kv)) kvs)"
| "py_iter (JStr s) = Inr (map (\<lambda>c. JStr [c]) s)"
| "py_iter _ = Inl TypeError"

section \<open>Serialisation: \<^verbatim>\<open>json.dumps\<close>\<close>

definition digit_char :: "nat \<Rightarrow> char" where
  "digit_char d = (if d < 10 then char_of (48 + d) else char_of (87 + d))"

fun nat_repr :: "nat \<Rightarrow> string" where
  "nat_repr n = (if n < 10 then [digit_char n] else nat_repr (n div 10) @ [digit_char (n mod 10)])"

definition int_repr :: "int \<Rightarrow> string" where
  "int_repr i = (if i < 0 then CHR ''-'' # nat_repr (nat (- i)) else nat_repr (nat i))"

text \<open>The encoder of str values with \<^verbatim>\<open>ensure_ascii\<close> (the default): the short escapes,
  and \<^verbatim>\<open>\u00xx\<close> for every other character outside the printable ASCII range.\<close>

definition escape_char :: "char \<Rightarrow> string" where
  "escape_char c =
     (let n = (of_char c :: nat) in
      if n = 34 then [CHR 0x5C, CHR 0x22]
      else if n = 92 then [CHR 0x5C, CHR 0x5C]
      else if n = 10 then [CHR 0x5C, CHR ''n'']
      else if n = 13 then [CHR 0x5C, CHR ''r'']
      else if n = 9 then [CHR 0x5C, CHR ''t'']
      else if n = 8 then [CHR 0x5C, CHR ''b'']
      else if n = 12 then [CHR 0x5C, CHR ''f'']
      else if 32 \<le> n \<and> n \<le> 126 then [c]
      else [CHR 0x5C, CHR ''u'', CHR ''0'', CHR ''0'', digit_char (n div 16), digit_char (n mod 16)])"

definition encode_basestring_ascii :: "string \<Rightarrow> string" where
  "encode_basestring_ascii s = CHR 0x22 # concat (map escape_char s) @ [CHR 0x22]"

text \<open>\<^verbatim>\<open>sep.join(parts)\<close>.\<close>

fun py_join :: "string \<Rightarrow> string list \<Rightarrow> string" where
  "py_join sep [] = []"
| "py_join sep [p] = p"
| "py_join sep (p # q # ps) = p @ sep @ py_join sep (q # ps)"

text \<open>
  \<^verbatim>\<open>json.dumps(v, sort_keys=sk, separators=(isep, ksep))\<close>. With \<open>sort_keys\<close> the encoder
  writes the items of every dict in the order of their keys.
\<close>

function dumps :: "bool \<Rightarrow> string \<Rightarrow> string \<Rightarrow> json \<Rightarrow> string" where
  "dumps sk isep ksep JNull = ''null''"
| "dumps sk isep ksep (JBool b) = (if b then ''true'' else ''false'')"
| "dumps sk isep ksep (JInt n) = int_repr n"
| "dumps sk isep ksep (JFloat r) = r"
| "dumps sk isep ksep (JStr s) = encode_basestring_ascii s"
| "dumps sk isep ksep (JArr xs) =
     ''['' @ py_join isep (map (dumps sk isep ksep) xs) @ '']''"
| "dumps sk isep ksep (JObj kvs) =
     ''{'' @ py_join isep
        (map (\<lambda>kv. encode_basestring_ascii (fst kv) @ ksep @ dumps sk isep ksep (snd kv))
           (if sk then sort_key fst kvs else kvs)) @ ''}''"
  by pat_completeness auto
termination
proof (relation "measure (\<lambda>(sk, isep, ksep, v). size v)")
  show "wf (measure (\<lambda>(sk, isep, ksep, v). size v))"
    by simp
next
  fix sk :: bool and isep ksep :: string and xs :: "json list" and x
  assume "x \<in> set xs"
  then have "size x < Suc (size_list size xs)"
    by (induction xs) auto
  then show "((sk, isep, ksep, x), (sk, isep, ksep, JArr xs)) \<in> measure (\<lambda>(sk, isep, ksep, v). size v)"
    by simp
next
  fix sk :: bool and isep ksep :: string and kvs :: "(string \<times> json) list" and x
  have est: "size (snd y) < Suc (size_list (size_prod (\<lambda>x. 0) size) ys)"
    if "y \<in> set ys" for y :: "string \<times> json" and ys
    using that by (induction ys) (simp, cases y, auto)
  assume "x \<in> set (if sk then sort_key fst kvs else kvs)"
  then have "x \<in> set kvs"
    by (simp split: if_splits)
  then show "((sk, isep, ksep, snd x), (sk, isep, ksep, JObj kvs)) \<in> measure (\<lambda>(sk, isep, ksep, v). size v)"
    using est [of x kvs] by simp
qed

text \<open>What \<^verbatim>\<open>json.loads\<close> gives back for a text written with \<open>sort_keys\<close>: the same value,
  the fields of every dict in key order.\<close>

fun sorted_copy :: "json \<Rightarrow> json" where
  "sorted_copy (JArr xs) = JArr (map sorted_copy xs)"
| "sorted_copy (JObj kvs) = JObj (sort_key fst (map (\<lambda>kv. (fst kv, sorted_copy (snd kv))) kvs))"
| "sorted_copy v = v"

text \<open>
  Two values are copies of the same record when they differ in the insertion order of
  dict fields only: dicts of the same size where every field of the first is a field of
  the second with a copy of the value (Python's dict equality), lists with copies at every
  position, and identical scalars.
\<close>

fun same_record :: "json \<Rightarrow> json \<Rightarrow> bool" where
  "same_record (JObj xs) b =
     (case b of
        JObj ys \<Rightarrow> length xs = length ys \<and>
          list_all (\<lambda>kv. case map_of ys (fst kv) of None \<Rightarrow> False | Some w \<Rightarrow> same_record (snd kv) w) xs
      | _ \<Rightarrow> False)"
| "same_record (JArr xs) b =
     (case b of JArr ys \<Rightarrow> list_all2 same_record xs ys | _ \<Rightarrow> False)"
| "same_record a b = (a = b)"

section \<open>The fingerprint: \<^verbatim>\<open>controllers/plan_controller.py\<close>, \<^verbatim>\<open>_etag\<close>\<close>

text \<open>
  \<^verbatim>\<open>hashlib.md5(json.dumps(payload, sort_keys=True).encode()).hexdigest()\<close>. The digest
  function of the library is the parameter \<open>md5\<close>; the separators are the defaults of
  \<^verbatim>\<open>json.dumps\<close>.
\<close>

definition etag :: "(string \<Rightarrow> string) \<Rightarrow> json \<Rightarrow> string" where
  "etag md5 payload = md5 (dumps True '', '' '': '' payload)"

section \<open>The system of record: \<^verbatim>\<open>services/redis_service.py\<close>\<close>

text \<open>
  The key-value store maps a key to the text written by \<^verbatim>\<open>set_data\<close>; the state keeps the
  value \<^verbatim>\<open>json.loads\<close> reads back from that text, and the list of commands sent to the
  store. The main queue holds the jobs as published (a job body goes through
  \<^verbatim>\<open>json.dumps\<close> and \<^verbatim>\<open>json.loads\<close> unchanged); \<open>broker_up\<close> says whether the broker
  can be reached. The controllers never pass a time to live.
\<close>

datatype kv_cmd = KvGet string | KvSet string json | KvDel string

record api_state =
  store :: "string \<rightharpoonup> json"
  kv_log :: "kv_cmd list"
  queue :: "json list"
  broker_up :: bool

definition set_data :: "string \<Rightarrow> json \<Rightarrow> api_state \<Rightarrow> api_state" where
  "set_data k v s =
     s\<lparr>store := (store s)(k \<mapsto> sorted_copy v), kv_log := kv_log s @ [KvSet k (sorted_copy v)]\<rparr>"

definition get_data :: "string \<Rightarrow> api_state \<Rightarrow> json option \<times> api_state" where
  "get_data k s = (store s k, s\<lparr>kv_log := kv_log s @ [KvGet k]\<rparr>)"

definition delete_data :: "string \<Rightarrow> api_state \<Rightarrow> bool \<times> api_state" where
  "delete_data k s =
     (store s k \<noteq> None, s\<lparr>store := (store s)(k := None), kv_log := kv_log s @ [KvDel k]\<rparr>)"

section \<open>The queue client: \<^verbatim>\<open>services/queue_service.py\<close>\<close>

definition publish :: "json \<Rightarrow> api_state \<Rightarrow> exn option \<times> api_state" where
  "publish job s =
     (if broker_up s then (None, s\<lparr>queue := queue s @ [job]\<rparr>) else (Some QueueError, s))"

section \<open>The controllers: \<^verbatim>\<open>controllers/plan_controller.py\<close>\<close>

text \<open>
  A request carries the parsed body (\<open>JNull\<close> when \<^verbatim>\<open>get_json\<close> gives \<^verbatim>\<open>None\<close>) and the
  \<^verbatim>\<open>If-Match\<close> header (\<open>None\<close> when the header is absent). A response is the status, the
  body and the headers the controller sets. The schema validator
  (\<^verbatim>\<open>utils/schema_validator.py\<close> with \<^verbatim>\<open>constants/schema.py\<close>) is the parameter
  \<open>validate_schema\<close>, returning the pair \<^verbatim>\<open>(valid, error)\<close>. A controller returns
  \<open>Inl e\<close> when the exception \<open>e\<close> leaves it uncaught.
\<close>

record request =
  json_body :: json
  if_match :: "string option"

record response =
  status :: nat
  body :: json
  headers :: "(string \<times> string) list"

definition jsonify :: "(string \<times> json) list \<Rightarrow> nat \<Rightarrow> response" where
  "jsonify obj code = \<lparr>status = code, body = JObj obj, headers = []\<rparr>"

definition set_header :: "string \<Rightarrow> string \<Rightarrow> response \<Rightarrow> response" where
  "set_header name v resp = resp\<lparr>headers := AList.update name v (headers resp)\<rparr>"

text \<open>\<^verbatim>\<open>str(e)\<close>; the text of a library exception is the library's, the model writes the
  class.\<close>

fun str_exn :: "exn \<Rightarrow> string" where
  "str_exn ESConnError = ''ConnectionError''"
| "str_exn TransportError = ''TransportError''"
| "str_exn NotFoundError = ''NotFoundError''"
| "str_exn ValueError = ''ValueError''"
| "str_exn KeyError = ''KeyError''"
| "str_exn AttributeError = ''AttributeError''"
| "str_exn TypeError = ''TypeError''"
| "str_exn OverflowError = ''OverflowError''"
| "str_exn QueueError = ''QueueError''"
| "str_exn FloatArith = ''FloatArith''"

text \<open>\<^verbatim>\<open>_key\<close>.\<close>

definition key :: "string \<Rightarrow> string" where
  "key object_id = ''plan_'' @ object_id"

text \<open>\<^verbatim>\<open>_publish_safe\<close>: \<open>None\<close> when the job is published, the 503 response otherwise.\<close>

definition publish_safe :: "json \<Rightarrow> api_state \<Rightarrow> response option \<times> api_state" where
  "publish_safe job s =
     (case publish job s of
        (None, s1) \<Rightarrow> (None, s1)
      | (Some e, s1) \<Rightarrow>
          (Some (jsonify [(''message'', JStr ''Queue unavailable''), (''error'', JStr (str_exn e))] 503), s1))"

text \<open>\<^verbatim>\<open>client_if_match and client_if_match != digest\<close>.\<close>

definition precondition_failed :: "string option \<Rightarrow> string \<Rightarrow> bool" where
  "precondition_failed client_if_match digest =
     (case client_if_match of None \<Rightarrow> False | Some m \<Rightarrow> m \<noteq> [] \<and> m \<noteq> digest)"

definition put_plan ::
  "(string \<Rightarrow> string) \<Rightarrow> (json \<Rightarrow> bool \<times> json) \<Rightarrow> string \<Rightarrow> request \<Rightarrow> api_state
     \<Rightarrow> (exn + response) \<times> api_state" where
  "put_plan md5 validate_schema object_id req s =
     (let payload = py_or (json_body req) (JObj []);
          (valid, error) = validate_schema payload
      in if \<not> valid
         then (Inr (jsonify [(''message'', JStr ''Invalid data''), (''errors'', error)] 400), s)
         else
           (let (existing, s1) = get_data (key object_id) s;
                changed = (case existing of
                             None \<Rightarrow> False
                           | Some ex \<Rightarrow> py_truthy ex \<and> precondition_failed (if_match req) (etag md5 ex))
            in if changed
               then (Inr (jsonify [(''message'', JStr ''Resource changed'')] 412), s1)
               else
                 (let s2 = set_data (key object_id) payload s1
                  in case publish_safe
                            (JObj [(''type'', JStr ''index''), (''id'', JStr object_id), (''doc'', payload)]) s2 of
                       (Some err, s3) \<Rightarrow> (Inr err, s3)
                     | (None, s3) \<Rightarrow>
                         (Inr (set_header ''ETag'' (etag md5 payload)
                                 (jsonify [(''message'', JStr ''Plan created successfully''),
                                           (''objectId'', JStr object_id)] 201)), s3))))"

text \<open>The fields of a dict (used where the value is known to be one).\<close>

fun dict_fields :: "json \<Rightarrow> (string \<times> json) list" where
  "dict_fields (JObj kvs) = kvs"
| "dict_fields _ = []"

text \<open>The loop of \<^verbatim>\<open>patch_plan\<close> over \<^verbatim>\<open>updates["linkedPlanServices"]\<close>, on the pair
  \<^verbatim>\<open>(applied, child_ops)\<close>.\<close>

definition child_op :: "string \<Rightarrow> string \<Rightarrow> json \<Rightarrow> json \<Rightarrow> json" where
  "child_op kind object_id child_id doc =
     JObj [(''type'', JStr kind), (''parentId'', JStr object_id), (''id'', child_id), (''doc'', doc)]"

definition applied_entry :: "string \<Rightarrow> json \<Rightarrow> json" where
  "applied_entry kind doc = JObj (dict_merge [(''type'', JStr kind)] (dict_fields doc))"

fun patch_children ::
  "string \<Rightarrow> json list \<Rightarrow> json list \<times> json list \<Rightarrow> exn + (json list \<times> json list)" where
  "patch_children object_id [] acc = Inr acc"
| "patch_children object_id (item # items) (applied, child_ops) =
     (case py_get item ''linkedService'' of
        Inl e \<Rightarrow> Inl e
      | Inr v \<Rightarrow>
         (let svc = py_or v (JObj []) in
          case py_get svc ''objectId'' of
            Inl e \<Rightarrow> Inl e
          | Inr sid \<Rightarrow>
             (let acc1 = (if py_truthy sid
                          then (applied @ [applied_entry ''linkedService'' svc],
                                child_ops @ [child_op ''linkedService'' object_id sid svc])
                          else (applied, child_ops))
              in case py_get item ''planserviceCostShares'' of
                   Inl e \<Rightarrow> Inl e
                 | Inr c \<Rightarrow>
                    (let cost = py_or c (JObj []) in
                     case py_get cost ''objectId'' of
                       Inl e \<Rightarrow> Inl e
                     | Inr cid \<Rightarrow>
                         patch_children object_id items
                           (if py_truthy cid
                            then (fst acc1 @ [applied_entry ''planserviceCostShares'' cost],
                                  snd acc1 @ [child_op ''planserviceCostShares'' object_id cid cost])
                            else acc1)))))"

text \<open>The fields of \<open>updates\<close> among \<^verbatim>\<open>("planType", "_org", "creationDate")\<close>, in that
  order.\<close>

definition plan_level :: "(string \<times> json) list \<Rightarrow> (string \<times> json) list" where
  "plan_level upf =
     concat (map (\<lambda>fld. case map_of upf fld of None \<Rightarrow> [] | Some v \<Rightarrow> [(fld, v)])
               [''planType'', ''_org'', ''creationDate''])"

text \<open>
  \<^verbatim>\<open>patch_plan\<close> of the controller (the indexer has a function of the same name, which
  keeps it). Unpacking \<^verbatim>\<open>**existing\<close> needs a dict, \<^verbatim>\<open>updates.items()\<close> too.
\<close>

definition controller_patch_plan ::
  "(string \<Rightarrow> string) \<Rightarrow> (json \<Rightarrow> bool \<times> json) \<Rightarrow> string \<Rightarrow> request \<Rightarrow> api_state
     \<Rightarrow> (exn + response) \<times> api_state" where
  "controller_patch_plan md5 validate_schema object_id req s =
     (let (existing, s1) = get_data (key object_id) s in
      case existing of
        None \<Rightarrow> (Inr (jsonify [(''message'', JStr ''Not found'')] 404), s1)
      | Some ex \<Rightarrow>
          if \<not> py_truthy ex then (Inr (jsonify [(''message'', JStr ''Not found'')] 404), s1)
          else if precondition_failed (if_match req) (etag md5 ex)
          then (Inr (jsonify [(''message'', JStr ''Resource changed'')] 412), s1)
          else
            (let updates = py_or (json_body req) (JObj []) in
             case ex of
               JObj exf \<Rightarrow>
                 (case updates of
                    JObj upf \<Rightarrow>
                      (let merged0 = dict_merge exf (filter (\<lambda>kv. fst kv \<noteq> ''linkedPlanServices'') upf);
                           merged = (case map_of upf ''linkedPlanServices'' of
                                       None \<Rightarrow> merged0
                                     | Some v \<Rightarrow> AList.update ''linkedPlanServices'' v merged0);
                           (valid, error) = validate_schema (JObj merged)
                       in if \<not> valid
                          then (Inr (jsonify [(''message'', JStr ''Invalid data''), (''errors'', error)] 400), s1)
                          else
                            (let s2 = set_data (key object_id) (JObj merged) s1;
                                 applied0 = map (\<lambda>kv. JObj [(''type'', JStr ''plan''), kv]) (plan_level upf)
                             in case py_iter (case map_of upf ''linkedPlanServices'' of
                                                None \<Rightarrow> JArr [] | Some v \<Rightarrow> v) of
                                  Inl e \<Rightarrow> (Inl e, s2)
                                | Inr items \<Rightarrow>
                                   (case patch_children object_id items (applied0, []) of
                                      Inl e \<Rightarrow> (Inl e, s2)
                                    | Inr (applied, child_ops) \<Rightarrow>
                                       (case publish_safe
                                               (JObj [(''type'', JStr ''patch''), (''id'', JStr object_id),
                                                      (''plan_doc'', JObj (plan_level upf)),
                                                      (''child_ops'', JArr child_ops)]) s2 of
                                          (Some err, s3) \<Rightarrow> (Inr err, s3)
                                        | (None, s3) \<Rightarrow>
                                            (Inr (set_header ''ETag'' (etag md5 (JObj merged))
                                                    (jsonify [(''planId'', JStr object_id),
                                                              (''applied'', JArr applied)] 200)), s3)))))
                  | _ \<Rightarrow> (Inl AttributeError, s1))
             | _ \<Rightarrow> (Inl TypeError, s1)))"

definition delete_plan :: "string \<Rightarrow> api_state \<Rightarrow> (exn + response) \<times> api_state" where
  "delete_plan object_id s =
     (let (existing, s1) = get_data (key object_id) s;
          existed = (case existing of None \<Rightarrow> False | Some v \<Rightarrow> py_truthy v);
          (removed, s2) = delete_data (key object_id) s1
      in case publish_safe (JObj [(''type'', JStr ''delete''), (''id'', JStr object_id)]) s2 of
           (Some err, s3) \<Rightarrow> (Inr err, s3)
         | (None, s3) \<Rightarrow>
             if \<not> existed then (Inr (jsonify [(''message'', JStr ''Plan not found'')] 404), s3)
             else (Inr \<lparr>status = 202, body = JStr [], headers = []\<rparr>, s3))"

section \<open>The search index as the indexer uses it\<close>

text \<open>
  The index (created by \<^verbatim>\<open>ensure_index\<close> with one shard) holds at most one document per
  id; the state keeps, for every id, the document and the routing key it was written with,
  and the list of requests sent. The client raises on its own account when the index
  cannot be reached: \<open>faults\<close> is the schedule of these failures, one entry per coming
  request (\<open>None\<close>: the request goes through); after the schedule every request goes
  through. A request that fails leaves the documents as they were.
\<close>

datatype es_fault = ConnectionFault | TransportFault

fun raised_by :: "es_fault \<Rightarrow> exn" where
  "raised_by ConnectionFault = ESConnError"
| "raised_by TransportFault = TransportError"

text \<open>The two queries of \<^verbatim>\<open>delete_plan_from_index\<close>: \<^verbatim>\<open>has_parent\<close> with the parent type
  and the \<^verbatim>\<open>_id\<close> of the parent, and \<^verbatim>\<open>term\<close> on \<^verbatim>\<open>_routing\<close>.\<close>

datatype es_query = HasParent string json | TermRouting json

text \<open>A request with its keyword arguments: the id, the document, and the pair
  \<^verbatim>\<open>(routing, refresh)\<close> of \<^verbatim>\<open>_routing\<close>; a query and \<^verbatim>\<open>refresh\<close>.\<close>

datatype es_request =
    Index json json "json \<times> string"
  | Delete json "json \<times> string"
  | DeleteByQuery es_query bool

record es_state =
  docs :: "json \<rightharpoonup> json \<times> json"
  sent :: "es_request list"
  faults :: "es_fault option list"

definition next_fault :: "es_state \<Rightarrow> es_fault option \<times> es_state" where
  "next_fault s = (case faults s of [] \<Rightarrow> (None, s) | f # fs \<Rightarrow> (f, s\<lparr>faults := fs\<rparr>))"

text \<open>\<^verbatim>\<open>ES.index\<close>: writes the document under its id, replacing the one there.\<close>

definition ES_index :: "json \<Rightarrow> json \<Rightarrow> json \<times> string \<Rightarrow> es_state \<Rightarrow> exn option \<times> es_state" where
  "ES_index i d p s =
     (case next_fault (s\<lparr>sent := sent s @ [Index i d p]\<rparr>) of
        (Some f, s1) \<Rightarrow> (Some (raised_by f), s1)
      | (None, s1) \<Rightarrow> (None, s1\<lparr>docs := (docs s1)(i \<mapsto> (d, fst p))\<rparr>))"

text \<open>\<^verbatim>\<open>ES.delete\<close>: raises \<^verbatim>\<open>NotFoundError\<close> when there is no document with the id.\<close>

definition ES_delete :: "json \<Rightarrow> json \<times> string \<Rightarrow> es_state \<Rightarrow> exn option \<times> es_state" where
  "ES_delete i p s =
     (case next_fault (s\<lparr>sent := sent s @ [Delete i p]\<rparr>) of
        (Some f, s1) \<Rightarrow> (Some (raised_by f), s1)
      | (None, s1) \<Rightarrow>
          if docs s1 i = None then (Some NotFoundError, s1)
          else (None, s1\<lparr>docs := (docs s1)(i := None)\<rparr>))"

text \<open>The join field \<^verbatim>\<open>rel\<close> of a document: the relation name (\<^verbatim>\<open>"plan"\<close>, or the
  \<^verbatim>\<open>name\<close> of a child's relation tag) and the parent a child names.\<close>

definition join_name :: "json \<Rightarrow> json option" where
  "join_name d =
     (case map_of (dict_fields d) ''rel'' of
        Some (JStr n) \<Rightarrow> Some (JStr n)
      | Some (JObj r) \<Rightarrow> map_of r ''name''
      | _ \<Rightarrow> None)"

definition join_parent :: "json \<Rightarrow> json option" where
  "join_parent d =
     (case map_of (dict_fields d) ''rel'' of
        Some (JObj r) \<Rightarrow> map_of r ''parent''
      | _ \<Rightarrow> None)"

text \<open>
  The documents a query selects. \<^verbatim>\<open>term _routing\<close> selects by the routing key.
  \<^verbatim>\<open>has_parent\<close> selects the children of the parents that satisfy the inner query: the
  documents whose relation tag names as parent a document that is in the index, has the
  parent type as relation name, and has the given id.
\<close>

fun matches :: "(json \<rightharpoonup> json \<times> json) \<Rightarrow> es_query \<Rightarrow> json \<times> json \<Rightarrow> bool" where
  "matches ds (TermRouting v) (d, r) = (r = v)"
| "matches ds (HasParent ptype v) (d, r) =
     (join_parent d = Some v \<and>
      (case ds v of None \<Rightarrow> False | Some (pd, pr) \<Rightarrow> join_name pd = Some (JStr ptype)))"

definition ES_delete_by_query :: "es_query \<Rightarrow> bool \<Rightarrow> es_state \<Rightarrow> exn option \<times> es_state" where
  "ES_delete_by_query q refresh s =
     (case next_fault (s\<lparr>sent := sent s @ [DeleteByQuery q refresh]\<rparr>) of
        (Some f, s1) \<Rightarrow> (Some (raised_by f), s1)
      | (None, s1) \<Rightarrow>
          (None, s1\<lparr>docs := (\<lambda>i. case docs s1 i of
                                      None \<Rightarrow> None
                                    | Some dr \<Rightarrow> if matches (docs s1) q dr then None else Some dr)\<rparr>))"

section \<open>The fan-out indexer: \<^verbatim>\<open>services/elasticsearch_service.py\<close>\<close>

text \<open>Statements in sequence: the second runs when the first raised nothing.\<close>

definition then_do ::
  "exn option \<times> es_state \<Rightarrow> (es_state \<Rightarrow> exn option \<times> es_state) \<Rightarrow> exn option \<times> es_state" where
  "then_do r f = (case r of (None, s) \<Rightarrow> f s | (Some e, s) \<Rightarrow> (Some e, s))"

text \<open>\<^verbatim>\<open>_routing\<close>.\<close>

definition routing :: "json \<Rightarrow> json \<times> string" where
  "routing pid = (pid, ''wait_for'')"

text \<open>\<^verbatim>\<open>_upsert_parent\<close>.\<close>

definition upsert_parent :: "json \<Rightarrow> (string \<times> json) list \<Rightarrow> es_state \<Rightarrow> exn option \<times> es_state" where
  "upsert_parent plan_id flds s =
     (if flds = [] then (None, s)
      else ES_index plan_id
             (JObj (dict_merge
                      [(''objectId'', plan_id), (''objectType'', JStr ''plan''), (''rel'', JStr ''plan'')]
                      flds))
             (routing plan_id) s)"

text \<open>\<^verbatim>\<open>_upsert_child\<close>; \<^verbatim>\<open>{**doc, "rel": ...}\<close> needs a dict.\<close>

definition upsert_child :: "json \<Rightarrow> json \<Rightarrow> string \<Rightarrow> json \<Rightarrow> es_state \<Rightarrow> exn option \<times> es_state" where
  "upsert_child parent_id child_id rel_name doc s =
     (case doc of
        JObj flds \<Rightarrow>
          ES_index child_id
            (JObj (AList.update ''rel'' (JObj [(''name'', JStr rel_name), (''parent'', parent_id)]) flds))
            (routing parent_id) s
      | _ \<Rightarrow> (Some TypeError, s))"

text \<open>
  The step both entry points take for every child: with \<open>v\<close> the value read from the
  record, \<^verbatim>\<open>c = v or {}\<close>, then \<^verbatim>\<open>if c.get("objectId"): _upsert_child(plan_id, c["objectId"], rel_name, c)\<close>.
\<close>

definition upsert_identified :: "json \<Rightarrow> string \<Rightarrow> json \<Rightarrow> es_state \<Rightarrow> exn option \<times> es_state" where
  "upsert_identified plan_id rel_name v s =
     (let c = py_or v (JObj []) in
      case py_get c ''objectId'' of
        Inl e \<Rightarrow> (Some e, s)
      | Inr cid \<Rightarrow> if py_truthy cid then upsert_child plan_id cid rel_name c s else (None, s))"

text \<open>The body of the loop over \<^verbatim>\<open>linkedPlanServices\<close>, and the loop; \<^verbatim>\<open>index_plan\<close> and
  \<^verbatim>\<open>patch_plan\<close> have the same one.\<close>

definition index_item :: "json \<Rightarrow> json \<Rightarrow> es_state \<Rightarrow> exn option \<times> es_state" where
  "index_item plan_id item s =
     (case py_get item ''linkedService'' of
        Inl e \<Rightarrow> (Some e, s)
      | Inr v \<Rightarrow>
          then_do (upsert_identified plan_id ''linkedPlanServices'' v s)
            (\<lambda>s1. case py_get item ''planserviceCostShares'' of
                     Inl e \<Rightarrow> (Some e, s1)
                   | Inr c \<Rightarrow> upsert_identified plan_id ''planserviceCostShares'' c s1))"

fun index_items :: "json \<Rightarrow> json list \<Rightarrow> es_state \<Rightarrow> exn option \<times> es_state" where
  "index_items plan_id [] s = (None, s)"
| "index_items plan_id (item # items) s = then_do (index_item plan_id item s) (index_items plan_id items)"

definition upsert_linked_services :: "json \<Rightarrow> json \<Rightarrow> es_state \<Rightarrow> exn option \<times> es_state" where
  "upsert_linked_services plan_id plan_doc s =
     (case py_get_default plan_doc ''linkedPlanServices'' (JArr []) of
        Inl e \<Rightarrow> (Some e, s)
      | Inr v \<Rightarrow>
          (case py_iter (py_or v (JArr [])) of
             Inl e \<Rightarrow> (Some e, s)
           | Inr items \<Rightarrow> index_items plan_id items s))"

text \<open>\<^verbatim>\<open>{k: plan_doc.get(k) for k in ("_org", "planType", "creationDate") if k in plan_doc}\<close>.\<close>

definition parent_fields :: "json \<Rightarrow> (string \<times> json) list" where
  "parent_fields plan_doc =
     concat (map (\<lambda>k. case map_of (dict_fields plan_doc) k of None \<Rightarrow> [] | Some v \<Rightarrow> [(k, v)])
               [''_org'', ''planType'', ''creationDate''])"

definition index_plan :: "json \<Rightarrow> es_state \<Rightarrow> exn option \<times> es_state" where
  "index_plan plan_doc s =
     (case py_get plan_doc ''objectId'' of
        Inl e \<Rightarrow> (Some e, s)
      | Inr plan_id \<Rightarrow>
          if \<not> py_truthy plan_id then (Some ValueError, s)
          else
            then_do (upsert_parent plan_id (parent_fields plan_doc) s)
              (\<lambda>s1. case py_get plan_doc ''planCostShares'' of
                       Inl e \<Rightarrow> (Some e, s1)
                     | Inr v \<Rightarrow>
                         then_do (upsert_identified plan_id ''planCostShares'' v s1)
                           (upsert_linked_services plan_id plan_doc)))"

text \<open>\<^verbatim>\<open>patch_plan\<close> of the indexer; \<^verbatim>\<open>updates.items()\<close> needs a dict.\<close>

definition patch_plan :: "json \<Rightarrow> json \<Rightarrow> es_state \<Rightarrow> exn option \<times> es_state" where
  "patch_plan plan_id updates s =
     (case updates of
        JObj upf \<Rightarrow>
          then_do
            (upsert_parent plan_id
               (filter (\<lambda>kv. fst kv \<noteq> ''planCostShares'' \<and> fst kv \<noteq> ''linkedPlanServices'') upf) s)
            (\<lambda>s1. then_do
                     (case map_of upf ''planCostShares'' of
                        None \<Rightarrow> (None, s1)
                      | Some v \<Rightarrow> upsert_identified plan_id ''planCostShares'' v s1)
                     (upsert_linked_services plan_id updates))
      | _ \<Rightarrow> (Some AttributeError, s))"

text \<open>\<^verbatim>\<open>delete_plan_from_index\<close>: \<^verbatim>\<open>NotFoundError\<close> from the first request is passed over,
  any other exception leaves the function.\<close>

definition delete_plan_from_index :: "json \<Rightarrow> es_state \<Rightarrow> exn option \<times> es_state" where
  "delete_plan_from_index plan_id s =
     (case ES_delete plan_id (routing plan_id) s of
        (r, s1) \<Rightarrow>
          if r = None \<or> r = Some NotFoundError
          then then_do (ES_delete_by_query (HasParent ''plan'' plan_id) True s1)
                 (ES_delete_by_query (TermRouting plan_id) True)
          else (r, s1))"

section \<open>The worker: \<^verbatim>\<open>worker.py\<close>\<close>

definition MAX_ATTEMPTS :: int where
  "MAX_ATTEMPTS = 5"

definition QUEUE :: string where
  "QUEUE = ''plan-jobs''"

text \<open>What the callback does on the channel, in order: the acknowledgement of the current
  delivery, \<^verbatim>\<open>time.sleep\<close>, and \<^verbatim>\<open>basic_publish\<close> with the routing key and the body.\<close>

datatype effect = Ack | Sleep rat | Publish string json

definition republish :: "json \<Rightarrow> effect" where
  "republish job = Publish QUEUE job"

definition to_dlq :: "json \<Rightarrow> exn \<Rightarrow> effect" where
  "to_dlq job err = Publish (QUEUE @ ''.dlq'') (JObj [(''error'', JStr (str_exn err)), (''job'', job)])"

text \<open>\<^verbatim>\<open>d[k]\<close>.\<close>

fun py_item :: "json \<Rightarrow> string \<Rightarrow> exn + json" where
  "py_item (JObj kvs) k = (case map_of kvs k of None \<Rightarrow> Inl KeyError | Some v \<Rightarrow> Inr v)"
| "py_item _ k = Inl TypeError"

text \<open>The \<^verbatim>\<open>try\<close> block of \<^verbatim>\<open>on_msg\<close> up to the acknowledgement.\<close>

definition dispatch :: "json \<Rightarrow> es_state \<Rightarrow> exn option \<times> es_state" where
  "dispatch job s =
     (case py_get job ''type'' of
        Inl e \<Rightarrow> (Some e, s)
      | Inr t \<Rightarrow>
          if t = JStr ''index'' then
            (case py_item job ''doc'' of
               Inl e \<Rightarrow> (Some e, s)
             | Inr d \<Rightarrow> index_plan d s)
          else if t = JStr ''patch'' then
            (case py_item job ''id'' of
               Inl e \<Rightarrow> (Some e, s)
             | Inr i \<Rightarrow>
                 (case py_item job ''doc'' of
                    Inl e \<Rightarrow> (Some e, s)
                  | Inr d \<Rightarrow> patch_plan i d s))
          else if t = JStr ''delete'' then
            (case py_item job ''id'' of
               Inl e \<Rightarrow> (Some e, s)
             | Inr i \<Rightarrow> delete_plan_from_index i s)
          else (Some ValueError, s))"

text \<open>\<^verbatim>\<open>except (ESConnError, TransportError)\<close>.\<close>

definition transient :: "exn \<Rightarrow> bool" where
  "transient e = (e = ESConnError \<or> e = TransportError)"

text \<open>\<^verbatim>\<open>job.get("attempt", 0) + 1\<close> on the value read: an int or a bool counts, anything
  but a number cannot be added to (\<^verbatim>\<open>TypeError\<close>). On a float the code goes on in float
  arithmetic; the model does not compute it and marks the place with \<open>FloatArith\<close>.\<close>

fun next_attempt :: "json \<Rightarrow> exn + int" where
  "next_attempt (JInt a) = Inr (a + 1)"
| "next_attempt (JBool b) = Inr ((if b then 1 else 0) + 1)"
| "next_attempt (JFloat r) = Inl FloatArith"
| "next_attempt _ = Inl TypeError"

text \<open>
  \<^verbatim>\<open>min(2 ** n, 30)\<close>. For \<open>n \<ge> 0\<close> the power is an int. For \<open>n < 0\<close> Python computes
  it on floats: converting \<open>n\<close> raises \<^verbatim>\<open>OverflowError\<close> when \<open>-n\<close> is
  \<open>2 ^ 1024 - 2 ^ 970\<close> or more (the least int that does not round to a finite float);
  otherwise the float is the exact power down to \<open>n = -1074\<close> and \<open>0.0\<close> below.
\<close>

definition backoff :: "int \<Rightarrow> exn + rat" where
  "backoff n =
     (if 0 \<le> n then Inr (of_int (min (2 ^ nat n) 30))
      else if 2 ^ 1024 - 2 ^ 970 \<le> - n then Inl OverflowError
      else if - 1074 \<le> n then Inr (min (1 / 2 ^ nat (- n)) 30)
      else Inr 0)"

text \<open>
  \<^verbatim>\<open>on_msg\<close> on the decoded job. The result is the exception that leaves the callback
  (one raised inside a handler is not caught by the handlers beside it), the effects on
  the channel up to there, and the index. In the handler of transient failures the
  counter is set first, then the delivery is acknowledged, then the delay is computed.
  With a float counter the code acknowledges too; the model follows it up to there and
  stops with \<open>FloatArith\<close>.
\<close>

definition on_msg :: "json \<Rightarrow> es_state \<Rightarrow> exn option \<times> effect list \<times> es_state" where
  "on_msg job s =
     (case dispatch job s of
        (None, s1) \<Rightarrow> (None, [Ack], s1)
      | (Some e, s1) \<Rightarrow>
          if transient e then
            (case py_get_default job ''attempt'' (JInt 0) of
               Inl x \<Rightarrow> (Some x, [], s1)
             | Inr v \<Rightarrow>
                 (case next_attempt v of
                    Inl x \<Rightarrow> (Some x, if x = FloatArith then [Ack] else [], s1)
                  | Inr n \<Rightarrow>
                      (let job1 = JObj (AList.update ''attempt'' (JInt n) (dict_fields job)) in
                       if n \<le> MAX_ATTEMPTS
                       then (case backoff n of
                               Inl x \<Rightarrow> (Some x, [Ack], s1)
                             | Inr d \<Rightarrow> (None, [Ack, Sleep d, republish job1], s1))
                       else (None, [Ack, to_dlq job1 e], s1))))
          else (None, [Ack, to_dlq job e], s1))"

text \<open>The job a delivery put back on the main queue, if it did.\<close>

fun republished :: "effect list \<Rightarrow> json option" where
  "republished [] = None"
| "republished (Publish q j # es) = (if q = QUEUE then Some j else republished es)"
| "republished (_ # es) = republished es"

text \<open>
  The deliveries of one job: the consumer hands the job to \<^verbatim>\<open>on_msg\<close>, and hands every copy
  \<^verbatim>\<open>on_msg\<close> puts back on the main queue to \<^verbatim>\<open>on_msg\<close> again, at most \<open>n\<close> times. Each
  delivery is recorded with the outcome of its \<^verbatim>\<open>try\<close> block and its effects.
\<close>

fun deliveries :: "nat \<Rightarrow> json \<Rightarrow> es_state \<Rightarrow> (exn option \<times> effect list) list" where
  "deliveries 0 job s = []"
| "deliveries (Suc n) job s =
     (case on_msg job s of
        (x, effs, s1) \<Rightarrow>
          (fst (dispatch job s), effs) #
          (case republished effs of None \<Rightarrow> [] | Some job1 \<Rightarrow> deliveries n job1 s1))"


section \<open>What the fan-out is to do, in the words of the specification\<close>

text \<open>The value of a field of a record, \<open>JNull\<close> when the record has none.\<close>

definition field :: "json \<Rightarrow> string \<Rightarrow> json" where
  "field r k = (case map_of (dict_fields r) k of None \<Rightarrow> JNull | Some v \<Rightarrow> v)"

fun is_dict :: "json \<Rightarrow> bool" where
  "is_dict (JObj kvs) = True"
| "is_dict _ = False"

text \<open>An identified child: a sub-object that carries its own objectId.\<close>

definition identified :: "json \<Rightarrow> bool" where
  "identified c = (is_dict c \<and> py_truthy (field c ''objectId''))"

text \<open>
  The shape of a record as the API layer lets it through: a dict whose cost-share is a
  dict or empty, and whose linked services, when there are any, are a list of dicts each
  with a service and a cost-share that are dicts or empty.
\<close>

definition child_shaped :: "json \<Rightarrow> bool" where
  "child_shaped v = (is_dict v \<or> \<not> py_truthy v)"

definition item_shaped :: "json \<Rightarrow> bool" where
  "item_shaped item =
     (is_dict item \<and> child_shaped (field item ''linkedService'')
      \<and> child_shaped (field item ''planserviceCostShares''))"

definition record_shaped :: "json \<Rightarrow> bool" where
  "record_shaped r =
     (is_dict r \<and> child_shaped (field r ''planCostShares'')
      \<and> (case field r ''linkedPlanServices'' of
            JArr items \<Rightarrow> list_all item_shaped items
          | v \<Rightarrow> \<not> py_truthy v))"

text \<open>The children of a record with the relation each is indexed under: the cost-share,
  then for each linked service its service and its cost-share; the identified ones.\<close>

definition linked_items :: "json \<Rightarrow> json list" where
  "linked_items r = (case field r ''linkedPlanServices'' of JArr items \<Rightarrow> items | _ \<Rightarrow> [])"

definition record_children :: "json \<Rightarrow> (string \<times> json) list" where
  "record_children r =
     filter (\<lambda>c. identified (snd c))
       ((''planCostShares'', field r ''planCostShares'')
        # concat (map (\<lambda>item. [(''linkedPlanServices'', field item ''linkedService''),
                                 (''planserviceCostShares'', field item ''planserviceCostShares'')])
                    (linked_items r)))"

text \<open>The upsert of a child under a parent: the child's own fields and the relation tag
  with the parent's id, under the child's id, routed by the parent's id.\<close>

definition child_upsert :: "json \<Rightarrow> string \<times> json \<Rightarrow> es_request" where
  "child_upsert pid c =
     Index (field (snd c) ''objectId'')
       (JObj (AList.update ''rel'' (JObj [(''name'', JStr (fst c)), (''parent'', pid)])
                (dict_fields (snd c))))
       (pid, ''wait_for'')"

text \<open>The upsert of the parent: the identity and relation tags and the three scalar
  fields the record has.\<close>

definition parent_upsert :: "json \<Rightarrow> json \<Rightarrow> es_request" where
  "parent_upsert pid r =
     Index pid
       (JObj ([(''objectId'', pid), (''objectType'', JStr ''plan''), (''rel'', JStr ''plan'')]
              @ parent_fields r))
       (pid, ''wait_for'')"

text \<open>A request is the upsert of a child of \<open>pid\<close>: routed by \<open>pid\<close>, with a relation tag
  of one of the three child relations that names \<open>pid\<close> as parent.\<close>

fun child_upsert_of :: "json \<Rightarrow> es_request \<Rightarrow> bool" where
  "child_upsert_of pid (Index i (JObj d) p) =
     (fst p = pid \<and>
      map_of d ''rel'' \<in> set (map (\<lambda>n. Some (JObj [(''name'', JStr n), (''parent'', pid)]))
                                [''planCostShares'', ''linkedPlanServices'', ''planserviceCostShares'']))"
| "child_upsert_of pid _ = False"

text \<open>The requests a step sends when started in \<open>s\<close>.\<close>

definition issued :: "(es_state \<Rightarrow> exn option \<times> es_state) \<Rightarrow> es_state \<Rightarrow> es_request list" where
  "issued f s = drop (length (sent s)) (sent (snd (f s)))"

text \<open>The documents after a list of upserts that all went through.\<close>

fun apply_upsert :: "es_request \<Rightarrow> (json \<rightharpoonup> json \<times> json) \<Rightarrow> (json \<rightharpoonup> json \<times> json)" where
  "apply_upsert (Index i d p) ds = ds(i \<mapsto> (d, fst p))"
| "apply_upsert _ ds = ds"

text \<open>A step that, on a reachable index, ends with \<open>r\<close> after exactly the upserts \<open>qs\<close>.\<close>

definition issues ::
  "(es_state \<Rightarrow> exn option \<times> es_state) \<Rightarrow> exn option \<Rightarrow> es_request list \<Rightarrow> bool" where
  "issues f r qs =
     (\<forall>s. faults s = [] \<longrightarrow>
          f s = (r, s\<lparr>docs := fold apply_upsert qs (docs s), sent := sent s @ qs\<rparr>))"

text \<open>A step that, on a reachable index, is some list of upserts; and a step all of whose
  requests, on any index, satisfy \<open>P\<close>.\<close>

definition upserts_only :: "(es_state \<Rightarrow> exn option \<times> es_state) \<Rightarrow> bool" where
  "upserts_only f = (\<exists>r qs. issues f r qs)"

definition sends :: "(es_request \<Rightarrow> bool) \<Rightarrow> (es_state \<Rightarrow> exn option \<times> es_state) \<Rightarrow> bool" where
  "sends P f = (\<forall>s. \<exists>qs. sent (snd (f s)) = sent s @ qs \<and> list_all P qs)"

section \<open>Properties of the fingerprint\<close>

lemma insort_key_map_snd:
  "insort_key fst (fst x, h (snd x)) (map (\<lambda>kv. (fst kv, h (snd kv))) ys)
   = map (\<lambda>kv. (fst kv, h (snd kv))) (insort_key fst x ys)"
  by (induction ys) auto

lemma sort_key_map_snd:
  "sort_key fst (map (\<lambda>kv. (fst kv, h (snd kv))) xs)
   = map (\<lambda>kv. (fst kv, h (snd kv))) (sort_key fst xs)"
  by (induction xs) (auto simp: insort_key_map_snd)

lemma sort_key_fst_unique:
  fixes xs ys :: "(string \<times> 'a) list"
  assumes "distinct (map fst xs)" "distinct (map fst ys)" "set xs = set ys"
  shows "sort_key fst xs = sort_key fst ys"
proof (rule map_sorted_distinct_set_unique [where f = fst])
  show "inj_on fst (set (sort_key fst xs) \<union> set (sort_key fst ys))"
    using assms by (simp add: distinct_map)
  show "distinct (map fst (sort_key fst xs))"
    using assms(1) by (simp add: distinct_map)
  show "distinct (map fst (sort_key fst ys))"
    using assms(2) by (simp add: distinct_map)
qed (use assms in simp_all)

lemma same_fields_keys:
  assumes "distinct (map fst xs)" "distinct (map fst ys)" "length xs = length ys"
    and "fst ` set xs \<subseteq> fst ` set ys"
  shows "fst ` set xs = fst ` set ys"
proof (rule card_subset_eq)
  have "card (fst ` set xs) = length xs"
    using assms(1) by (metis distinct_card length_map set_map)
  moreover have "card (fst ` set ys) = length ys"
    using assms(2) by (metis distinct_card length_map set_map)
  ultimately show "card (fst ` set xs) = card (fst ` set ys)"
    using assms(3) by simp
qed (use assms in simp_all)

lemma dumps_same_record:
  "wf_json a \<Longrightarrow> wf_json b \<Longrightarrow> same_record a b \<Longrightarrow> dumps True isep ksep a = dumps True isep ksep b"
proof (induction a arbitrary: b)
  case (JArr xs)
  from JArr.prems(3) obtain ys where b: "b = JArr ys" and l: "list_all2 same_record xs ys"
    by (cases b) auto
  have "list_all2 (\<lambda>x y. dumps True isep ksep x = dumps True isep ksep y) xs ys"
    using l JArr.IH JArr.prems(1,2) unfolding b
    by (auto simp: list_all2_conv_all_nth list_all_length)
  then have "map (dumps True isep ksep) xs = map (dumps True isep ksep) ys"
    by (simp add: list_all2_conv_all_nth list_eq_iff_nth_eq)
  then show ?case by (simp add: b)
next
  case (JObj xs)
  from JObj.prems(3) obtain ys where b: "b = JObj ys" and len: "length xs = length ys"
    and fields: "\<forall>kv \<in> set xs. \<exists>w. map_of ys (fst kv) = Some w \<and> same_record (snd kv) w"
    by (cases b) (auto simp: list_all_iff split: option.splits)
  let ?h = "dumps True isep ksep"
  let ?m = "\<lambda>kv :: string \<times> json. (fst kv, ?h (snd kv))"
  have dx: "distinct (map fst xs)" and dy: "distinct (map fst ys)"
    and wx: "\<forall>kv \<in> set xs. wf_json (snd kv)" and wy: "\<forall>kv \<in> set ys. wf_json (snd kv)"
    using JObj.prems(1,2) by (auto simp: b list_all_iff)
  have sub: "fst ` set xs \<subseteq> fst ` set ys"
    using fields by (force dest: map_of_SomeD)
  have keys: "fst ` set xs = fst ` set ys"
    by (rule same_fields_keys [OF dx dy len sub])
  have eqv: "?h v = ?h w" if "(k, v) \<in> set xs" "(k, w) \<in> set ys" for k v w
  proof -
    from fields that(1) obtain w' where w': "map_of ys k = Some w'" "same_record v w'"
      by force
    from dy that(2) have "map_of ys k = Some w" by simp
    with w' have "same_record v w" by simp
    moreover have "snd (k, v) \<in> snd ` set xs" using that(1) by force
    ultimately show ?thesis
      using JObj.IH [of "(k, v)" v w] that wx wy by force
  qed
  have "set (map ?m xs) = set (map ?m ys)"
  proof (intro equalityI subsetI)
    fix p assume "p \<in> set (map ?m xs)"
    then obtain k v where kv: "(k, v) \<in> set xs" "p = (k, ?h v)" by auto
    then have "k \<in> fst ` set ys" using keys by force
    then obtain w where "(k, w) \<in> set ys" by auto
    with kv eqv show "p \<in> set (map ?m ys)" by force
  next
    fix p assume "p \<in> set (map ?m ys)"
    then obtain k w where kw: "(k, w) \<in> set ys" "p = (k, ?h w)" by auto
    then have "k \<in> fst ` set xs" using keys by force
    then obtain v where "(k, v) \<in> set xs" by auto
    with kw eqv show "p \<in> set (map ?m xs)" by force
  qed
  moreover have "distinct (map fst (map ?m xs))" "distinct (map fst (map ?m ys))"
    using dx dy by (simp_all add: comp_def)
  ultimately have "sort_key fst (map ?m xs) = sort_key fst (map ?m ys)"
    by (rule sort_key_fst_unique [rotated 2])
  then have "map ?m (sort_key fst xs) = map ?m (sort_key fst ys)"
    by (simp only: sort_key_map_snd)
  then have "map (\<lambda>p. encode_basestring_ascii (fst p) @ ksep @ snd p) (map ?m (sort_key fst xs))
      = map (\<lambda>p. encode_basestring_ascii (fst p) @ ksep @ snd p) (map ?m (sort_key fst ys))"
    by simp
  then show ?case
    by (simp add: b comp_def)
qed (simp_all)

lemma same_record_refl: "wf_json a \<Longrightarrow> same_record a a"
proof (induction a)
  case (JArr xs)
  then show ?case
    by (auto simp: list_all2_conv_all_nth list_all_length)
next
  case (JObj xs)
  then show ?case
    by (fastforce simp: list_all_iff)
qed simp_all

text \<open>
  Claim C9. The fingerprint is a function of the record alone, and it does not see the
  insertion order of fields: two well-formed records that are copies of each other up to
  the order in which the fields of their dicts (at any depth) were inserted have the same
  digest, whatever the digest function of the library is. Taking both copies to be the
  record itself (\<open>same_record_refl\<close>) gives the plain determinism.
\<close>

theorem etag_insertion_order:
  assumes "wf_json a" and "wf_json b" and "same_record a b"
  shows "etag md5 a = etag md5 b"
  using dumps_same_record [OF assms] by (simp add: etag_def)

theorem etag_insertion_order_witness:
  "wf_json (JObj [(''objectId'', JStr ''p1''), (''planCostShares'', JObj [(''copay'', JInt 23), (''objectId'', JStr ''c1'')])])
   \<and> wf_json (JObj [(''planCostShares'', JObj [(''objectId'', JStr ''c1''), (''copay'', JInt 23)]), (''objectId'', JStr ''p1'')])
   \<and> same_record
        (JObj [(''objectId'', JStr ''p1''), (''planCostShares'', JObj [(''copay'', JInt 23), (''objectId'', JStr ''c1'')])])
        (JObj [(''planCostShares'', JObj [(''objectId'', JStr ''c1''), (''copay'', JInt 23)]), (''objectId'', JStr ''p1'')])
   \<and> etag (\<lambda>t. t) (JObj [(''objectId'', JStr ''p1''), (''planCostShares'', JObj [(''copay'', JInt 23), (''objectId'', JStr ''c1'')])])
     = etag (\<lambda>t. t) (JObj [(''planCostShares'', JObj [(''objectId'', JStr ''c1''), (''copay'', JInt 23)]), (''objectId'', JStr ''p1'')])"
proof -
  let ?a = "JObj [(''objectId'', JStr ''p1''), (''planCostShares'', JObj [(''copay'', JInt 23), (''objectId'', JStr ''c1'')])]"
  let ?b = "JObj [(''planCostShares'', JObj [(''objectId'', JStr ''c1''), (''copay'', JInt 23)]), (''objectId'', JStr ''p1'')]"
  have a: "wf_json ?a" by simp
  have b: "wf_json ?b" by simp
  have c: "same_record ?a ?b" by simp
  show ?thesis
    using a b c etag_insertion_order [OF a b c, of "\<lambda>t. t"] by blast
qed

section \<open>Properties of the worker\<close>

lemma dispatch_unknown_type:
  assumes "map_of kvs ''type'' \<noteq> Some (JStr ''index'')"
    and "map_of kvs ''type'' \<noteq> Some (JStr ''patch'')"
    and "map_of kvs ''type'' \<noteq> Some (JStr ''delete'')"
  shows "dispatch (JObj kvs) s = (Some ValueError, s)"
  using assms by (auto simp: dispatch_def split: option.splits)

lemma index_plan_without_id:
  assumes "py_get d ''objectId'' = Inr v" and "\<not> py_truthy v"
  shows "index_plan d s = (Some ValueError, s)"
  using assms by (simp add: index_plan_def)









text \<open>
  Claim C3. When the \<^verbatim>\<open>try\<close> block of \<^verbatim>\<open>on_msg\<close> raises an exception that is neither a
  connection nor a transport error, the worker acknowledges the delivery and publishes the
  job, as it was delivered (the \<^verbatim>\<open>attempt\<close> counter is not touched), with the error on the
  dead-letter queue. Nothing is put back on the main queue, so this first delivery is the
  only one. An unrecognised \<^verbatim>\<open>type\<close> (\<open>dispatch_unknown_type\<close>) and a record without an
  objectId (\<open>index_plan_without_id\<close>) both raise \<^verbatim>\<open>ValueError\<close>, which is such an exception.
\<close>

theorem permanent_failure_dead_lettered:
  assumes "dispatch job s = (Some e, s1)" and "\<not> transient e"
  shows "on_msg job s = (None, [Ack, to_dlq job e], s1)
       \<and> republished [Ack, to_dlq job e] = None
       \<and> deliveries (Suc n) job s = [(Some e, [Ack, to_dlq job e])]"
  using assms by (simp add: on_msg_def to_dlq_def QUEUE_def)

theorem permanent_failure_dead_lettered_witness:
  "dispatch (JObj [(''type'', JStr ''reindex''), (''id'', JStr ''p1'')]) \<lparr>docs = Map.empty, sent = [], faults = []\<rparr>
     = (Some ValueError, \<lparr>docs = Map.empty, sent = [], faults = []\<rparr>)
   \<and> \<not> transient ValueError
   \<and> on_msg (JObj [(''type'', JStr ''reindex''), (''id'', JStr ''p1'')]) \<lparr>docs = Map.empty, sent = [], faults = []\<rparr>
     = (None, [Ack, Publish ''plan-jobs.dlq'' (JObj [(''error'', JStr ''ValueError''),
          (''job'', JObj [(''type'', JStr ''reindex''), (''id'', JStr ''p1'')])])],
        \<lparr>docs = Map.empty, sent = [], faults = []\<rparr>)"
proof -
  let ?job = "JObj [(''type'', JStr ''reindex''), (''id'', JStr ''p1'')]"
  let ?s = "\<lparr>docs = Map.empty, sent = [], faults = []\<rparr>"
  have d: "dispatch ?job ?s = (Some ValueError, ?s)"
    by (simp add: dispatch_def)
  have t: "\<not> transient ValueError"
    by (simp add: transient_def)
  show ?thesis
    using d t permanent_failure_dead_lettered [OF d t, of 0]
    by (simp add: to_dlq_def QUEUE_def)
qed




section \<open>The patch job, from the handler to the worker\<close>

lemma patch_wire_job_dead_lettered:
  "on_msg (JObj [(''type'', JStr ''patch''), (''id'', i), (''plan_doc'', p), (''child_ops'', c)]) s
   = (None, [Ack, to_dlq (JObj [(''type'', JStr ''patch''), (''id'', i), (''plan_doc'', p), (''child_ops'', c)]) KeyError], s)"
  by (simp add: on_msg_def dispatch_def transient_def)

lemma status_jsonify [simp]: "status (jsonify obj code) = code"
  by (simp add: jsonify_def)

lemma status_set_header [simp]: "status (set_header n v r) = status r"
  by (simp add: set_header_def)

lemma controller_patch_published:
  assumes "controller_patch_plan md5 validate_schema object_id req st = (Inr resp, st1)"
    and "status resp = 200"
  shows "\<exists>p c. queue st1 = queue st @ [JObj [(''type'', JStr ''patch''), (''id'', JStr object_id), (''plan_doc'', p), (''child_ops'', c)]]"
  using assms
  apply (simp add: controller_patch_plan_def Let_def get_data_def split: option.splits if_splits json.splits prod.splits sum.splits)
  apply (auto simp: publish_safe_def publish_def set_data_def split: if_splits)
  done


text \<open>
  Claim C1. The job the PATCH handler publishes has the fields \<^verbatim>\<open>type\<close>, \<^verbatim>\<open>id\<close>,
  \<^verbatim>\<open>plan_doc\<close> and \<^verbatim>\<open>child_ops\<close>. The worker reads \<^verbatim>\<open>job["doc"]\<close> for a \<^verbatim>\<open>patch\<close> job,
  which raises \<^verbatim>\<open>KeyError\<close> on that job: whenever the handler answers 200, the job it put
  on the queue is acknowledged and dead-lettered by \<^verbatim>\<open>on_msg\<close>, in every state of the index
  and without a request to it. The payload never reaches the indexer.
\<close>

theorem patch_job_dead_lettered:
  assumes "controller_patch_plan md5 validate_schema object_id req st = (Inr resp, st1)"
    and "status resp = 200"
  shows "\<exists>p c. queue st1 = queue st @ [JObj [(''type'', JStr ''patch''), (''id'', JStr object_id), (''plan_doc'', p), (''child_ops'', c)]]
           \<and> (\<forall>s. on_msg (JObj [(''type'', JStr ''patch''), (''id'', JStr object_id), (''plan_doc'', p), (''child_ops'', c)]) s
                  = (None, [Ack, to_dlq (JObj [(''type'', JStr ''patch''), (''id'', JStr object_id), (''plan_doc'', p), (''child_ops'', c)]) KeyError], s))"
  using controller_patch_published [OF assms] patch_wire_job_dead_lettered by blast

theorem patch_job_dead_lettered_witness:
  "controller_patch_plan (\<lambda>t. t) (\<lambda>p. (True, JNull)) ''p1''
      \<lparr>json_body = JObj [(''planType'', JStr ''hmo'')], if_match = None\<rparr>
      \<lparr>store = [''plan_p1'' \<mapsto> JObj [(''objectId'', JStr ''p1'')]], kv_log = [], queue = [], broker_up = True\<rparr>
    = (Inr (set_header ''ETag'' (etag (\<lambda>t. t) (JObj [(''objectId'', JStr ''p1''), (''planType'', JStr ''hmo'')]))
              (jsonify [(''planId'', JStr ''p1''), (''applied'', JArr [JObj [(''type'', JStr ''plan''), (''planType'', JStr ''hmo'')]])] 200)),
       \<lparr>store = [''plan_p1'' \<mapsto> JObj [(''objectId'', JStr ''p1''), (''planType'', JStr ''hmo'')]],
        kv_log = [KvGet ''plan_p1'', KvSet ''plan_p1'' (JObj [(''objectId'', JStr ''p1''), (''planType'', JStr ''hmo'')])],
        queue = [JObj [(''type'', JStr ''patch''), (''id'', JStr ''p1''),
                       (''plan_doc'', JObj [(''planType'', JStr ''hmo'')]), (''child_ops'', JArr [])]],
        broker_up = True\<rparr>)
   \<and> on_msg (JObj [(''type'', JStr ''patch''), (''id'', JStr ''p1''),
                    (''plan_doc'', JObj [(''planType'', JStr ''hmo'')]), (''child_ops'', JArr [])])
        \<lparr>docs = Map.empty, sent = [], faults = []\<rparr>
    = (None,
       [Ack, Publish ''plan-jobs.dlq''
          (JObj [(''error'', JStr ''KeyError''),
                 (''job'', JObj [(''type'', JStr ''patch''), (''id'', JStr ''p1''),
                                 (''plan_doc'', JObj [(''planType'', JStr ''hmo'')]), (''child_ops'', JArr [])])])],
       \<lparr>docs = Map.empty, sent = [], faults = []\<rparr>)"
proof -
  let ?st = "\<lparr>store = [''plan_p1'' \<mapsto> JObj [(''objectId'', JStr ''p1'')]], kv_log = [], queue = [], broker_up = True\<rparr>"
  let ?req = "\<lparr>json_body = JObj [(''planType'', JStr ''hmo'')], if_match = None\<rparr>"
  let ?resp = "set_header ''ETag'' (etag (\<lambda>t. t) (JObj [(''objectId'', JStr ''p1''), (''planType'', JStr ''hmo'')]))
              (jsonify [(''planId'', JStr ''p1''), (''applied'', JArr [JObj [(''type'', JStr ''plan''), (''planType'', JStr ''hmo'')]])] 200)"
  let ?st1 = "\<lparr>store = [''plan_p1'' \<mapsto> JObj [(''objectId'', JStr ''p1''), (''planType'', JStr ''hmo'')]],
        kv_log = [KvGet ''plan_p1'', KvSet ''plan_p1'' (JObj [(''objectId'', JStr ''p1''), (''planType'', JStr ''hmo'')])],
        queue = [JObj [(''type'', JStr ''patch''), (''id'', JStr ''p1''),
                       (''plan_doc'', JObj [(''planType'', JStr ''hmo'')]), (''child_ops'', JArr [])]],
        broker_up = True\<rparr>"
  have run: "controller_patch_plan (\<lambda>t. t) (\<lambda>p. (True, JNull)) ''p1'' ?req ?st = (Inr ?resp, ?st1)"
    by (simp add: controller_patch_plan_def Let_def get_data_def set_data_def key_def py_or_def
          precondition_failed_def dict_merge_def plan_level_def publish_safe_def publish_def)
  have ok: "status ?resp = 200"
    by simp
  show ?thesis
    using run patch_job_dead_lettered [OF run ok]
    by (simp add: to_dlq_def QUEUE_def)
qed

section \<open>Properties of the controllers\<close>

text \<open>
  Claim C4, as amended. Let a record be stored under the id (a non-empty value, as every
  record the handlers store) with digest \<open>D\<close>, and let the request carry a non-empty
  \<^verbatim>\<open>If-Match\<close> different from \<open>D\<close>. Then PATCH answers 412, and PUT answers 412 when its
  payload passes the schema validation and 400 when it does not (\<^verbatim>\<open>put_plan\<close> validates
  before it reads the stored record). In every case the only command sent to the
  key-value store is a read at most: nothing is written and no job is published.
\<close>

theorem stale_precondition_rejected:
  assumes "store s (key object_id) = Some ex" and "py_truthy ex"
    and "if_match req = Some m" and "m \<noteq> []" and "m \<noteq> etag md5 ex"
  shows "controller_patch_plan md5 validate_schema object_id req s
           = (Inr (jsonify [(''message'', JStr ''Resource changed'')] 412),
              s\<lparr>kv_log := kv_log s @ [KvGet (key object_id)]\<rparr>)
       \<and> put_plan md5 validate_schema object_id req s
           = (if fst (validate_schema (py_or (json_body req) (JObj [])))
              then (Inr (jsonify [(''message'', JStr ''Resource changed'')] 412),
                    s\<lparr>kv_log := kv_log s @ [KvGet (key object_id)]\<rparr>)
              else (Inr (jsonify [(''message'', JStr ''Invalid data''),
                                  (''errors'', snd (validate_schema (py_or (json_body req) (JObj []))))] 400),
                    s))"
  using assms
  by (simp add: controller_patch_plan_def put_plan_def get_data_def precondition_failed_def
        Let_def split_beta)

theorem stale_precondition_rejected_witness:
  "controller_patch_plan (\<lambda>t. t) (\<lambda>p. (True, JNull)) ''p1''
      \<lparr>json_body = JObj [(''planType'', JStr ''hmo'')], if_match = Some ''stale''\<rparr>
      \<lparr>store = [''plan_p1'' \<mapsto> JObj [(''objectId'', JStr ''p1'')]], kv_log = [], queue = [], broker_up = True\<rparr>
    = (Inr (jsonify [(''message'', JStr ''Resource changed'')] 412),
       \<lparr>store = [''plan_p1'' \<mapsto> JObj [(''objectId'', JStr ''p1'')]], kv_log = [KvGet ''plan_p1''],
        queue = [], broker_up = True\<rparr>)
   \<and> put_plan (\<lambda>t. t) (\<lambda>p. (True, JNull)) ''p1''
      \<lparr>json_body = JObj [(''planType'', JStr ''hmo'')], if_match = Some ''stale''\<rparr>
      \<lparr>store = [''plan_p1'' \<mapsto> JObj [(''objectId'', JStr ''p1'')]], kv_log = [], queue = [], broker_up = True\<rparr>
    = (Inr (jsonify [(''message'', JStr ''Resource changed'')] 412),
       \<lparr>store = [''plan_p1'' \<mapsto> JObj [(''objectId'', JStr ''p1'')]], kv_log = [KvGet ''plan_p1''],
        queue = [], broker_up = True\<rparr>)"
proof -
  let ?s = "\<lparr>store = [''plan_p1'' \<mapsto> JObj [(''objectId'', JStr ''p1'')]], kv_log = [], queue = [], broker_up = True\<rparr>"
  let ?req = "\<lparr>json_body = JObj [(''planType'', JStr ''hmo'')], if_match = Some ''stale''\<rparr>"
  have a: "store ?s (key ''p1'') = Some (JObj [(''objectId'', JStr ''p1'')])"
    by (simp add: key_def)
  have b: "py_truthy (JObj [(''objectId'', JStr ''p1'')])"
    by simp
  have c: "if_match ?req = Some ''stale''"
    by simp
  have d: "''stale'' \<noteq> []"
    by simp
  have e: "''stale'' \<noteq> etag (\<lambda>t. t) (JObj [(''objectId'', JStr ''p1'')])"
    by (simp add: etag_def)
  show ?thesis
    using stale_precondition_rejected [OF a b c d e, of "\<lambda>p. (True, JNull)"]
    by (simp add: key_def py_or_def)
qed

text \<open>
  Claim C4 as stated fails for PUT: with a validator that rejects the empty object, a PUT
  without a body and with an \<^verbatim>\<open>If-Match\<close> different from the digest of the stored record
  answers 400, not the conflict signal 412. The store and the queue are left as they were.
\<close>

theorem put_invalid_payload_counterexample:
  "store \<lparr>store = [''plan_p1'' \<mapsto> JObj [(''objectId'', JStr ''p1'')]], kv_log = [], queue = [], broker_up = True\<rparr>
      (key ''p1'') = Some (JObj [(''objectId'', JStr ''p1'')])
   \<and> ''stale'' \<noteq> etag (\<lambda>t. t) (JObj [(''objectId'', JStr ''p1'')])
   \<and> put_plan (\<lambda>t. t) (\<lambda>p. (dict_fields p \<noteq> [], JStr ''required properties are missing'')) ''p1''
        \<lparr>json_body = JNull, if_match = Some ''stale''\<rparr>
        \<lparr>store = [''plan_p1'' \<mapsto> JObj [(''objectId'', JStr ''p1'')]], kv_log = [], queue = [], broker_up = True\<rparr>
      = (Inr (jsonify [(''message'', JStr ''Invalid data''), (''errors'', JStr ''required properties are missing'')] 400),
         \<lparr>store = [''plan_p1'' \<mapsto> JObj [(''objectId'', JStr ''p1'')]], kv_log = [], queue = [], broker_up = True\<rparr>)
   \<and> status (jsonify [(''message'', JStr ''Invalid data''), (''errors'', JStr ''required properties are missing'')] 400) \<noteq> 412"
  by (simp add: put_plan_def key_def py_or_def etag_def jsonify_def)

text \<open>
  Claim C10. When no record is stored under the id, \<^verbatim>\<open>delete_plan\<close> still sends the delete
  to the key-value store and publishes the \<^verbatim>\<open>delete\<close> job, and answers 404 after both.
  When the broker cannot be reached the publication fails and the answer is the 503 of
  \<^verbatim>\<open>_publish_safe\<close>; the delete has been sent to the store all the same.
\<close>

theorem delete_absent_still_enqueues:
  assumes "store s (key object_id) = None"
  shows "delete_plan object_id s =
           (if broker_up s
            then (Inr (jsonify [(''message'', JStr ''Plan not found'')] 404),
                  s\<lparr>kv_log := kv_log s @ [KvGet (key object_id), KvDel (key object_id)],
                    queue := queue s @ [JObj [(''type'', JStr ''delete''), (''id'', JStr object_id)]]\<rparr>)
            else (Inr (jsonify [(''message'', JStr ''Queue unavailable''), (''error'', JStr ''QueueError'')] 503),
                  s\<lparr>kv_log := kv_log s @ [KvGet (key object_id), KvDel (key object_id)]\<rparr>))"
proof -
  have "(store s)(key object_id := None) = store s"
    using assms by (simp add: fun_upd_idem)
  then show ?thesis
    using assms
    by (simp add: delete_plan_def get_data_def delete_data_def publish_safe_def publish_def Let_def)
qed

theorem delete_absent_still_enqueues_witness:
  "store \<lparr>store = Map.empty, kv_log = [], queue = [], broker_up = True\<rparr> (key ''p9'') = None
   \<and> delete_plan ''p9'' \<lparr>store = Map.empty, kv_log = [], queue = [], broker_up = True\<rparr>
     = (Inr (jsonify [(''message'', JStr ''Plan not found'')] 404),
        \<lparr>store = Map.empty, kv_log = [KvGet ''plan_p9'', KvDel ''plan_p9''],
         queue = [JObj [(''type'', JStr ''delete''), (''id'', JStr ''p9'')]], broker_up = True\<rparr>)"
proof -
  have a: "store \<lparr>store = Map.empty, kv_log = [], queue = [], broker_up = True\<rparr> (key ''p9'') = None"
    by simp
  show ?thesis
    using a delete_absent_still_enqueues [OF a]
    by (simp add: key_def)
qed

section \<open>Properties of the fan-out indexer\<close>

text \<open>On a reachable index every step of the indexer is a list of upserts.\<close>

lemma issues_skip: "issues (\<lambda>s. (r, s)) r []"
  by (simp add: issues_def)

lemma issues_index: "issues (ES_index i d p) None [Index i d p]"
  by (simp add: issues_def ES_index_def next_fault_def)

lemma issues_then:
  assumes "issues f None qs" and "issues g r qs'"
  shows "issues (\<lambda>s. then_do (f s) g) r (qs @ qs')"
  using assms by (simp add: issues_def then_do_def)

lemma issues_then_raise:
  assumes "issues f (Some e) qs"
  shows "issues (\<lambda>s. then_do (f s) g) (Some e) qs"
  using assms by (simp add: issues_def then_do_def)

lemma issues_upsert_parent:
  "issues (upsert_parent pid flds) None
     (if flds = [] then []
      else [Index pid (JObj (dict_merge [(''objectId'', pid), (''objectType'', JStr ''plan''), (''rel'', JStr ''plan'')] flds))
              (pid, ''wait_for'')])"
proof (cases "flds = []")
  case True
  then have "upsert_parent pid flds = (\<lambda>s. (None, s))"
    by (simp add: upsert_parent_def fun_eq_iff)
  then show ?thesis
    using True issues_skip [of None] by simp
next
  case False
  then have "upsert_parent pid flds =
      ES_index pid (JObj (dict_merge [(''objectId'', pid), (''objectType'', JStr ''plan''), (''rel'', JStr ''plan'')] flds))
        (pid, ''wait_for'')"
    by (simp add: upsert_parent_def fun_eq_iff routing_def)
  then show ?thesis
    using False issues_index by simp
qed

lemma issues_upsert_identified:
  assumes "child_shaped v"
  shows "issues (upsert_identified pid n v) None
           (map (child_upsert pid) (filter (\<lambda>c. identified (snd c)) [(n, v)]))"
proof (cases "identified v")
  case True
  then obtain kvs where v: "v = JObj kvs" and t: "py_truthy (field v ''objectId'')"
    by (cases v) (auto simp: identified_def)
  from t v have ne: "kvs \<noteq> []"
    by (auto simp: field_def)
  have "upsert_identified pid n v =
      ES_index (field v ''objectId'')
        (JObj (AList.update ''rel'' (JObj [(''name'', JStr n), (''parent'', pid)]) kvs)) (pid, ''wait_for'')"
    using t ne
    by (auto simp: upsert_identified_def py_or_def v field_def upsert_child_def routing_def fun_eq_iff
        split: option.splits)
  then show ?thesis
    using True issues_index by (simp add: child_upsert_def v)
next
  case False
  have "upsert_identified pid n v = (\<lambda>s. (None, s))"
  proof (cases v)
    case (JObj kvs)
    with False show ?thesis
      by (auto simp: upsert_identified_def py_or_def identified_def field_def fun_eq_iff
          split: option.splits)
  qed (use assms in \<open>auto simp: upsert_identified_def py_or_def child_shaped_def fun_eq_iff\<close>)
  then show ?thesis
    using False issues_skip [of None] by simp
qed

lemma issues_index_item:
  assumes "item_shaped item"
  shows "issues (index_item pid item) None
           (map (child_upsert pid)
              (filter (\<lambda>c. identified (snd c))
                 [(''linkedPlanServices'', field item ''linkedService''),
                  (''planserviceCostShares'', field item ''planserviceCostShares'')]))"
proof -
  from assms obtain kvs where item: "item = JObj kvs"
    by (cases item) (auto simp: item_shaped_def)
  have eq: "index_item pid item =
      (\<lambda>s. then_do (upsert_identified pid ''linkedPlanServices'' (field item ''linkedService'') s)
              (upsert_identified pid ''planserviceCostShares'' (field item ''planserviceCostShares'')))"
    by (auto simp: index_item_def item field_def fun_eq_iff split: option.splits)
  have a: "issues (upsert_identified pid ''linkedPlanServices'' (field item ''linkedService'')) None
      (map (child_upsert pid) (filter (\<lambda>c. identified (snd c)) [(''linkedPlanServices'', field item ''linkedService'')]))"
    using assms by (intro issues_upsert_identified) (simp add: item_shaped_def)
  have b: "issues (upsert_identified pid ''planserviceCostShares'' (field item ''planserviceCostShares'')) None
      (map (child_upsert pid) (filter (\<lambda>c. identified (snd c)) [(''planserviceCostShares'', field item ''planserviceCostShares'')]))"
    using assms by (intro issues_upsert_identified) (simp add: item_shaped_def)
  have sp: "filter (\<lambda>c. identified (snd c))
                 [(''linkedPlanServices'', field item ''linkedService''),
                  (''planserviceCostShares'', field item ''planserviceCostShares'')]
      = filter (\<lambda>c. identified (snd c)) [(''linkedPlanServices'', field item ''linkedService'')]
        @ filter (\<lambda>c. identified (snd c)) [(''planserviceCostShares'', field item ''planserviceCostShares'')]"
    by simp
  show ?thesis
    unfolding eq sp map_append by (rule issues_then [OF a b])
qed

lemma issues_index_items:
  assumes "list_all item_shaped items"
  shows "issues (index_items pid items) None
           (map (child_upsert pid)
              (filter (\<lambda>c. identified (snd c))
                 (concat (map (\<lambda>item. [(''linkedPlanServices'', field item ''linkedService''),
                                        (''planserviceCostShares'', field item ''planserviceCostShares'')])
                            items))))"
  using assms
proof (induction items)
  case Nil
  have "index_items pid [] = (\<lambda>s. (None, s))"
    by (simp add: fun_eq_iff)
  then show ?case
    using issues_skip [of None] by simp
next
  case (Cons item items)
  have eq: "index_items pid (item # items) = (\<lambda>s. then_do (index_item pid item s) (index_items pid items))"
    by (simp add: fun_eq_iff)
  have a: "issues (index_item pid item) None
           (map (child_upsert pid)
              (filter (\<lambda>c. identified (snd c))
                 [(''linkedPlanServices'', field item ''linkedService''),
                  (''planserviceCostShares'', field item ''planserviceCostShares'')]))"
    using Cons.prems by (intro issues_index_item) simp
  have b: "issues (index_items pid items) None
           (map (child_upsert pid)
              (filter (\<lambda>c. identified (snd c))
                 (concat (map (\<lambda>item. [(''linkedPlanServices'', field item ''linkedService''),
                                        (''planserviceCostShares'', field item ''planserviceCostShares'')])
                            items))))"
    using Cons by simp
  have sp: "filter (\<lambda>c. identified (snd c))
                 (concat (map (\<lambda>item. [(''linkedPlanServices'', field item ''linkedService''),
                                        (''planserviceCostShares'', field item ''planserviceCostShares'')])
                            (item # items)))
      = filter (\<lambda>c. identified (snd c))
                 [(''linkedPlanServices'', field item ''linkedService''),
                  (''planserviceCostShares'', field item ''planserviceCostShares'')]
        @ filter (\<lambda>c. identified (snd c))
                 (concat (map (\<lambda>item. [(''linkedPlanServices'', field item ''linkedService''),
                                        (''planserviceCostShares'', field item ''planserviceCostShares'')])
                            items))"
    by simp
  show ?case
    unfolding eq sp map_append by (rule issues_then [OF a b])
qed

lemma issues_upsert_linked_services:
  assumes "record_shaped r"
  shows "issues (upsert_linked_services pid r) None
           (map (child_upsert pid)
              (filter (\<lambda>c. identified (snd c))
                 (concat (map (\<lambda>item. [(''linkedPlanServices'', field item ''linkedService''),
                                        (''planserviceCostShares'', field item ''planserviceCostShares'')])
                            (linked_items r)))))"
proof -
  from assms obtain kvs where r: "r = JObj kvs"
    by (cases r) (auto simp: record_shaped_def)
  have sh: "list_all item_shaped (linked_items r)"
    using assms by (auto simp: record_shaped_def linked_items_def split: json.splits)
  have "upsert_linked_services pid r = index_items pid (linked_items r)"
    using assms
    by (auto simp: upsert_linked_services_def r record_shaped_def linked_items_def field_def py_or_def
        fun_eq_iff split: option.splits json.splits)
  then show ?thesis
    using issues_index_items [OF sh] by simp
qed

lemma dict_merge_append:
  assumes "distinct (map fst b)" and "fst ` set b \<inter> fst ` set a = {}"
  shows "dict_merge a b = a @ b"
  using assms
proof (induction b arbitrary: a)
  case Nil
  then show ?case by (simp add: dict_merge_def)
next
  case (Cons kv b)
  have notin: "fst kv \<notin> fst ` set a"
    using Cons.prems(2) by auto
  have upd: "AList.update (fst kv) (snd kv) a = a @ [kv]"
    using notin by (induction a) auto
  have "dict_merge a (kv # b) = dict_merge (a @ [kv]) b"
    by (simp add: dict_merge_def upd)
  also have "\<dots> = (a @ [kv]) @ b"
    using Cons.prems by (intro Cons.IH) auto
  finally show ?case by simp
qed

lemma parent_fields_keys:
  "distinct (map fst (parent_fields r))"
  "fst ` set (parent_fields r) \<subseteq> {''_org'', ''planType'', ''creationDate''}"
  "(k, v) \<in> set (parent_fields r) \<Longrightarrow> map_of (dict_fields r) k = Some v"
  by (auto simp: parent_fields_def split: option.splits)

lemma parent_doc_fields:
  "dict_merge [(''objectId'', pid), (''objectType'', JStr ''plan''), (''rel'', JStr ''plan'')] (parent_fields r)
   = [(''objectId'', pid), (''objectType'', JStr ''plan''), (''rel'', JStr ''plan'')] @ parent_fields r"
  using parent_fields_keys(2) [of r]
  by (intro dict_merge_append parent_fields_keys(1)) auto

lemma issues_index_plan:
  assumes "record_shaped r" and "py_get r ''objectId'' = Inr pid" and "py_truthy pid"
  shows "issues (index_plan r) None
           ((if parent_fields r = [] then [] else [parent_upsert pid r])
            @ map (child_upsert pid) (record_children r))"
proof -
  from assms(1) obtain kvs where r: "r = JObj kvs"
    by (cases r) (auto simp: record_shaped_def)
  have eq: "index_plan r =
      (\<lambda>s. then_do (upsert_parent pid (parent_fields r) s)
              (\<lambda>s1. then_do (upsert_identified pid ''planCostShares'' (field r ''planCostShares'') s1)
                       (upsert_linked_services pid r)))"
    using assms(2,3) by (auto simp: index_plan_def r field_def fun_eq_iff split: option.splits)
  have a: "issues (upsert_parent pid (parent_fields r)) None
      (if parent_fields r = [] then [] else [parent_upsert pid r])"
    unfolding parent_upsert_def parent_doc_fields [symmetric] by (rule issues_upsert_parent)
  have b: "issues (upsert_identified pid ''planCostShares'' (field r ''planCostShares'')) None
      (map (child_upsert pid) (filter (\<lambda>c. identified (snd c)) [(''planCostShares'', field r ''planCostShares'')]))"
    using assms(1) by (intro issues_upsert_identified) (simp add: record_shaped_def)
  have c: "issues (\<lambda>s1. then_do (upsert_identified pid ''planCostShares'' (field r ''planCostShares'') s1)
                       (upsert_linked_services pid r)) None
      (map (child_upsert pid) (filter (\<lambda>c. identified (snd c)) [(''planCostShares'', field r ''planCostShares'')])
       @ map (child_upsert pid)
              (filter (\<lambda>c. identified (snd c))
                 (concat (map (\<lambda>item. [(''linkedPlanServices'', field item ''linkedService''),
                                        (''planserviceCostShares'', field item ''planserviceCostShares'')])
                            (linked_items r)))))"
    by (rule issues_then [OF b issues_upsert_linked_services [OF assms(1)]])
  have sp: "map (child_upsert pid) (record_children r) =
      map (child_upsert pid) (filter (\<lambda>c. identified (snd c)) [(''planCostShares'', field r ''planCostShares'')])
       @ map (child_upsert pid)
              (filter (\<lambda>c. identified (snd c))
                 (concat (map (\<lambda>item. [(''linkedPlanServices'', field item ''linkedService''),
                                        (''planserviceCostShares'', field item ''planserviceCostShares'')])
                            (linked_items r))))"
    by (simp add: record_children_def)
  show ?thesis
    unfolding eq sp by (rule issues_then [OF a c])
qed

text \<open>
  Claim C5. The record
  \<^verbatim>\<open>{"objectId": "p1", "linkedPlanServices": [{"linkedService": {"objectId": "s1"}}]}\<close>
  carries an objectId, yet \<^verbatim>\<open>index_plan\<close> on a reachable, empty index returns normally
  after a single request, the upsert of the child \<^verbatim>\<open>s1\<close> routed by \<^verbatim>\<open>p1\<close>: no parent
  document is written, and the index then holds a child whose parent is not there. The
  record has none of \<^verbatim>\<open>_org\<close>, \<^verbatim>\<open>planType\<close>, \<^verbatim>\<open>creationDate\<close>, and \<^verbatim>\<open>_upsert_parent\<close>
  returns at once on an empty dict of fields. The docstring of \<^verbatim>\<open>index_plan\<close> lists the
  parent among the documents written without the "if present" it gives the children.
\<close>

theorem index_plan_no_parent_upsert:
  "py_get (JObj [(''objectId'', JStr ''p1''),
                 (''linkedPlanServices'', JArr [JObj [(''linkedService'', JObj [(''objectId'', JStr ''s1'')])]])])
      ''objectId'' = Inr (JStr ''p1'')
   \<and> index_plan (JObj [(''objectId'', JStr ''p1''),
                        (''linkedPlanServices'', JArr [JObj [(''linkedService'', JObj [(''objectId'', JStr ''s1'')])]])])
        \<lparr>docs = Map.empty, sent = [], faults = []\<rparr>
     = (None,
        \<lparr>docs = [JStr ''s1'' \<mapsto>
                   (JObj [(''objectId'', JStr ''s1''),
                          (''rel'', JObj [(''name'', JStr ''linkedPlanServices''), (''parent'', JStr ''p1'')])],
                    JStr ''p1'')],
         sent = [Index (JStr ''s1'')
                   (JObj [(''objectId'', JStr ''s1''),
                          (''rel'', JObj [(''name'', JStr ''linkedPlanServices''), (''parent'', JStr ''p1'')])])
                   (JStr ''p1'', ''wait_for'')],
         faults = []\<rparr>)"
  by (simp add: index_plan_def parent_fields_def upsert_parent_def then_do_def upsert_identified_def
        py_or_def upsert_linked_services_def index_item_def upsert_child_def ES_index_def
        next_fault_def routing_def)

lemma map_add_twice: "(m ++ n) ++ n = m ++ n"
  by (rule ext) (simp add: map_add_def split: option.splits)

lemma apply_upsert_add: "apply_upsert q ds = ds ++ apply_upsert q Map.empty"
  by (cases q) (auto simp: map_add_def fun_eq_iff)

lemma fold_apply_upsert: "fold apply_upsert qs ds = ds ++ fold apply_upsert qs Map.empty"
proof (induction qs arbitrary: ds)
  case Nil
  then show ?case by simp
next
  case (Cons q qs)
  have "fold apply_upsert (q # qs) ds = fold apply_upsert qs (ds ++ apply_upsert q Map.empty)"
    using apply_upsert_add [of q ds] by simp
  also have "\<dots> = (ds ++ apply_upsert q Map.empty) ++ fold apply_upsert qs Map.empty"
    by (rule Cons.IH)
  also have "\<dots> = ds ++ (apply_upsert q Map.empty ++ fold apply_upsert qs Map.empty)"
    by simp
  also have "apply_upsert q Map.empty ++ fold apply_upsert qs Map.empty
      = fold apply_upsert (q # qs) Map.empty"
    using Cons.IH [of "apply_upsert q Map.empty"] by simp
  finally show ?case .
qed

lemma fold_apply_upsert_twice:
  "fold apply_upsert qs (fold apply_upsert qs ds) = fold apply_upsert qs ds"
  using fold_apply_upsert [of qs "fold apply_upsert qs ds"] fold_apply_upsert [of qs ds]
  by (simp add: map_add_twice)

lemma issues_twice:
  assumes "issues f r qs" and "faults s = []"
  shows "fst (f (snd (f s))) = fst (f s)"
    and "docs (snd (f (snd (f s)))) = docs (snd (f s))"
  using assms by (simp_all add: issues_def fold_apply_upsert_twice)

lemma uo_twice:
  assumes "upserts_only f" and "faults s = []"
  shows "fst (f (snd (f s))) = fst (f s) \<and> docs (snd (f (snd (f s)))) = docs (snd (f s))"
  using assms issues_twice unfolding upserts_only_def by blast

lemma uo_skip: "upserts_only (\<lambda>s. (r, s))"
  unfolding upserts_only_def using issues_skip by blast

lemma uo_index: "upserts_only (ES_index i d p)"
  unfolding upserts_only_def using issues_index by blast

lemma uo_then:
  assumes "upserts_only f" and "upserts_only g"
  shows "upserts_only (\<lambda>s. then_do (f s) g)"
proof -
  from assms obtain r qs r' qs' where f: "issues f r qs" and g: "issues g r' qs'"
    unfolding upserts_only_def by blast
  show ?thesis
  proof (cases r)
    case None
    with f g show ?thesis
      unfolding upserts_only_def using issues_then by blast
  next
    case (Some e)
    with f show ?thesis
      unfolding upserts_only_def using issues_then_raise by blast
  qed
qed

lemma uo_upsert_parent: "upserts_only (upsert_parent pid flds)"
  unfolding upserts_only_def using issues_upsert_parent by blast

lemma uo_upsert_child: "upserts_only (upsert_child pid cid n doc)"
  by (cases doc) (simp_all add: upsert_child_def [abs_def] uo_skip uo_index)

lemma uo_upsert_identified: "upserts_only (upsert_identified pid n v)"
proof (cases "py_get (py_or v (JObj [])) ''objectId''")
  case (Inl e)
  then show ?thesis
    by (simp add: upsert_identified_def [abs_def] uo_skip)
next
  case (Inr cid)
  then show ?thesis
    by (cases "py_truthy cid") (simp_all add: upsert_identified_def [abs_def] uo_skip uo_upsert_child)
qed

lemma uo_index_item: "upserts_only (index_item pid item)"
proof (cases "py_get item ''linkedService''")
  case (Inl e)
  then show ?thesis
    by (simp add: index_item_def [abs_def] uo_skip)
next
  case (Inr v)
  have "upserts_only (\<lambda>s1. case py_get item ''planserviceCostShares'' of
                     Inl e \<Rightarrow> (Some e, s1)
                   | Inr c \<Rightarrow> upsert_identified pid ''planserviceCostShares'' c s1)"
    by (cases "py_get item ''planserviceCostShares''") (simp_all add: uo_skip uo_upsert_identified)
  then show ?thesis
    using Inr uo_then [OF uo_upsert_identified] by (simp add: index_item_def [abs_def])
qed

lemma uo_index_items: "upserts_only (index_items pid items)"
proof (induction items)
  case Nil
  have "index_items pid [] = (\<lambda>s. (None, s))"
    by (simp add: fun_eq_iff)
  then show ?case by (simp add: uo_skip)
next
  case (Cons item items)
  have "index_items pid (item # items) = (\<lambda>s. then_do (index_item pid item s) (index_items pid items))"
    by (simp add: fun_eq_iff)
  then show ?case
    using uo_then [OF uo_index_item Cons] by simp
qed

lemma uo_upsert_linked_services: "upserts_only (upsert_linked_services pid r)"
proof (cases "py_get_default r ''linkedPlanServices'' (JArr [])")
  case (Inl e)
  then show ?thesis by (simp add: upsert_linked_services_def [abs_def] uo_skip)
next
  case (Inr v)
  then show ?thesis
    by (cases "py_iter (py_or v (JArr []))")
      (simp_all add: upsert_linked_services_def [abs_def] uo_skip uo_index_items)
qed

lemma uo_index_plan: "upserts_only (index_plan r)"
proof (cases "py_get r ''objectId''")
  case (Inl e)
  then show ?thesis by (simp add: index_plan_def [abs_def] uo_skip)
next
  case (Inr pid)
  have rest: "upserts_only (\<lambda>s1. case py_get r ''planCostShares'' of
                       Inl e \<Rightarrow> (Some e, s1)
                     | Inr v \<Rightarrow>
                         then_do (upsert_identified pid ''planCostShares'' v s1)
                           (upsert_linked_services pid r))"
    by (cases "py_get r ''planCostShares''")
      (simp_all add: uo_skip uo_then [OF uo_upsert_identified uo_upsert_linked_services])
  show ?thesis
    using Inr uo_then [OF uo_upsert_parent rest]
    by (cases "py_truthy pid") (simp_all add: index_plan_def [abs_def] uo_skip)
qed

text \<open>
  Claim C7. On a reachable index, applying \<^verbatim>\<open>index_plan\<close> to a record a second time leaves
  the index as the first application left it: the same documents under the same ids with
  the same routing keys; the second application ends as the first did. For a record of
  the shape the API lets through that carries an objectId, both return normally.
\<close>

theorem index_plan_idempotent:
  assumes "faults s = []"
  shows "docs (snd (index_plan r (snd (index_plan r s)))) = docs (snd (index_plan r s))
       \<and> fst (index_plan r (snd (index_plan r s))) = fst (index_plan r s)
       \<and> (record_shaped r \<and> py_truthy (field r ''objectId'') \<longrightarrow> fst (index_plan r s) = None)"
proof -
  have "fst (index_plan r s) = None" if "record_shaped r" "py_truthy (field r ''objectId'')"
  proof -
    from that(1) obtain kvs where r: "r = JObj kvs"
      by (cases r) (auto simp: record_shaped_def)
    have "py_get r ''objectId'' = Inr (field r ''objectId'')"
      by (simp add: r field_def)
    from issues_index_plan [OF that(1) this that(2)] assms show ?thesis
      by (simp add: issues_def)
  qed
  then show ?thesis
    using uo_twice [OF uo_index_plan assms] by blast
qed

theorem index_plan_idempotent_witness:
  "faults \<lparr>docs = Map.empty, sent = [], faults = []\<rparr> = []
   \<and> record_shaped (JObj [(''objectId'', JStr ''p1''), (''planType'', JStr ''hmo''),
        (''planCostShares'', JObj [(''objectId'', JStr ''c1''), (''copay'', JInt 23)])])
   \<and> py_truthy (field (JObj [(''objectId'', JStr ''p1''), (''planType'', JStr ''hmo''),
        (''planCostShares'', JObj [(''objectId'', JStr ''c1''), (''copay'', JInt 23)])]) ''objectId'')
   \<and> docs (snd (index_plan (JObj [(''objectId'', JStr ''p1''), (''planType'', JStr ''hmo''),
        (''planCostShares'', JObj [(''objectId'', JStr ''c1''), (''copay'', JInt 23)])])
        (snd (index_plan (JObj [(''objectId'', JStr ''p1''), (''planType'', JStr ''hmo''),
        (''planCostShares'', JObj [(''objectId'', JStr ''c1''), (''copay'', JInt 23)])])
           \<lparr>docs = Map.empty, sent = [], faults = []\<rparr>))))
     = docs (snd (index_plan (JObj [(''objectId'', JStr ''p1''), (''planType'', JStr ''hmo''),
        (''planCostShares'', JObj [(''objectId'', JStr ''c1''), (''copay'', JInt 23)])])
           \<lparr>docs = Map.empty, sent = [], faults = []\<rparr>))
   \<and> fst (index_plan (JObj [(''objectId'', JStr ''p1''), (''planType'', JStr ''hmo''),
        (''planCostShares'', JObj [(''objectId'', JStr ''c1''), (''copay'', JInt 23)])])
           \<lparr>docs = Map.empty, sent = [], faults = []\<rparr>) = None"
proof -
  let ?r = "JObj [(''objectId'', JStr ''p1''), (''planType'', JStr ''hmo''),
        (''planCostShares'', JObj [(''objectId'', JStr ''c1''), (''copay'', JInt 23)])]"
  let ?s = "\<lparr>docs = Map.empty, sent = [], faults = []\<rparr>"
  have a: "faults ?s = []"
    by simp
  have b: "record_shaped ?r"
    by (simp add: record_shaped_def child_shaped_def field_def)
  have c: "py_truthy (field ?r ''objectId'')"
    by (simp add: field_def)
  show ?thesis
    using a b c index_plan_idempotent [OF a, of ?r] by blast
qed

lemma sends_skip: "sends P (\<lambda>s. (r, s))"
  by (simp add: sends_def)

lemma sends_index: "P (Index i d p) \<Longrightarrow> sends P (ES_index i d p)"
  by (auto simp: sends_def ES_index_def next_fault_def split: list.splits option.splits)

lemma sends_then:
  assumes "sends P f" and "sends P g"
  shows "sends P (\<lambda>s. then_do (f s) g)"
  unfolding sends_def
proof
  fix s
  obtain r s1 where f: "f s = (r, s1)" by (cases "f s")
  from assms(1) f obtain qs where qs: "sent s1 = sent s @ qs" "list_all P qs"
    unfolding sends_def by (metis snd_conv)
  show "\<exists>qs. sent (snd (then_do (f s) g)) = sent s @ qs \<and> list_all P qs"
  proof (cases r)
    case None
    from assms(2) obtain qs' where "sent (snd (g s1)) = sent s1 @ qs'" "list_all P qs'"
      unfolding sends_def by blast
    with qs None f show ?thesis
      by (auto simp: then_do_def intro!: exI [of _ "qs @ qs'"])
  next
    case (Some e)
    with qs f show ?thesis
      by (auto simp: then_do_def)
  qed
qed

lemma issued_then:
  assumes "sends Q f" and "sends P g"
  shows "\<exists>cs. issued (\<lambda>s. then_do (f s) g) s = issued f s @ cs \<and> list_all P cs"
proof -
  obtain r s1 where f: "f s = (r, s1)" by (cases "f s")
  from assms(1) f obtain qs where qs: "sent s1 = sent s @ qs"
    unfolding sends_def by (metis snd_conv)
  show ?thesis
  proof (cases r)
    case None
    from assms(2) obtain qs' where "sent (snd (g s1)) = sent s1 @ qs'" "list_all P qs'"
      unfolding sends_def by blast
    with qs None f show ?thesis
      by (auto simp: then_do_def issued_def)
  next
    case (Some e)
    with qs f show ?thesis
      by (auto simp: then_do_def issued_def)
  qed
qed

lemma sends_upsert_parent: "sends (\<lambda>q. True) (upsert_parent pid flds)"
  by (cases "flds = []") (simp_all add: upsert_parent_def [abs_def] sends_skip sends_index)

lemma sends_upsert_child:
  assumes "n \<in> {''planCostShares'', ''linkedPlanServices'', ''planserviceCostShares''}"
  shows "sends (child_upsert_of pid) (upsert_child pid cid n doc)"
proof (cases doc)
  case (JObj flds)
  have "child_upsert_of pid
          (Index cid (JObj (AList.update ''rel'' (JObj [(''name'', JStr n), (''parent'', pid)]) flds))
             (routing pid))"
    using assms by (auto simp: routing_def update_conv')
  then show ?thesis
    using JObj by (simp add: upsert_child_def [abs_def] sends_index)
qed (simp_all add: upsert_child_def [abs_def] sends_skip)

lemma sends_upsert_identified:
  assumes "n \<in> {''planCostShares'', ''linkedPlanServices'', ''planserviceCostShares''}"
  shows "sends (child_upsert_of pid) (upsert_identified pid n v)"
proof (cases "py_get (py_or v (JObj [])) ''objectId''")
  case (Inl e)
  then show ?thesis
    by (simp add: upsert_identified_def [abs_def] sends_skip)
next
  case (Inr cid)
  then show ?thesis
    using sends_upsert_child [OF assms]
    by (cases "py_truthy cid") (simp_all add: upsert_identified_def [abs_def] sends_skip)
qed

lemma sends_index_item: "sends (child_upsert_of pid) (index_item pid item)"
proof (cases "py_get item ''linkedService''")
  case (Inl e)
  then show ?thesis
    by (simp add: index_item_def [abs_def] sends_skip)
next
  case (Inr v)
  have "sends (child_upsert_of pid) (\<lambda>s1. case py_get item ''planserviceCostShares'' of
                     Inl e \<Rightarrow> (Some e, s1)
                   | Inr c \<Rightarrow> upsert_identified pid ''planserviceCostShares'' c s1)"
    by (cases "py_get item ''planserviceCostShares''") (simp_all add: sends_skip sends_upsert_identified)
  then show ?thesis
    using Inr sends_then [OF sends_upsert_identified [of "''linkedPlanServices''"]]
    by (simp add: index_item_def [abs_def])
qed

lemma sends_index_items: "sends (child_upsert_of pid) (index_items pid items)"
proof (induction items)
  case Nil
  have "index_items pid [] = (\<lambda>s. (None, s))"
    by (simp add: fun_eq_iff)
  then show ?case by (simp add: sends_skip)
next
  case (Cons item items)
  have "index_items pid (item # items) = (\<lambda>s. then_do (index_item pid item s) (index_items pid items))"
    by (simp add: fun_eq_iff)
  then show ?case
    using sends_then [OF sends_index_item Cons] by simp
qed

lemma sends_upsert_linked_services: "sends (child_upsert_of pid) (upsert_linked_services pid r)"
proof (cases "py_get_default r ''linkedPlanServices'' (JArr [])")
  case (Inl e)
  then show ?thesis by (simp add: upsert_linked_services_def [abs_def] sends_skip)
next
  case (Inr v)
  then show ?thesis
    by (cases "py_iter (py_or v (JArr []))")
      (simp_all add: upsert_linked_services_def [abs_def] sends_skip sends_index_items)
qed

lemma index_plan_children_routed:
  assumes "py_get r ''objectId'' = Inr pid" and "py_truthy pid"
  shows "\<exists>cs. issued (index_plan r) s = issued (upsert_parent pid (parent_fields r)) s @ cs
              \<and> list_all (child_upsert_of pid) cs"
proof -
  let ?g = "\<lambda>s1. case py_get r ''planCostShares'' of
                       Inl e \<Rightarrow> (Some e, s1)
                     | Inr v \<Rightarrow>
                         then_do (upsert_identified pid ''planCostShares'' v s1)
                           (upsert_linked_services pid r)"
  have g: "sends (child_upsert_of pid) ?g"
    by (cases "py_get r ''planCostShares''")
      (simp_all add: sends_skip sends_then [OF sends_upsert_identified sends_upsert_linked_services])
  have "index_plan r = (\<lambda>s. then_do (upsert_parent pid (parent_fields r) s) ?g)"
    using assms by (simp add: index_plan_def [abs_def])
  then show ?thesis
    using issued_then [OF sends_upsert_parent g] by simp
qed

lemma patch_plan_children_routed:
  "\<exists>cs. issued (patch_plan pid u) s =
           issued (upsert_parent pid
                     (filter (\<lambda>kv. fst kv \<noteq> ''planCostShares'' \<and> fst kv \<noteq> ''linkedPlanServices'')
                        (dict_fields u))) s @ cs
         \<and> list_all (child_upsert_of pid) cs"
proof (cases u)
  case (JObj upf)
  let ?g = "\<lambda>s1. then_do
                     (case map_of upf ''planCostShares'' of
                        None \<Rightarrow> (None, s1)
                      | Some v \<Rightarrow> upsert_identified pid ''planCostShares'' v s1)
                     (upsert_linked_services pid u)"
  have "sends (child_upsert_of pid) (\<lambda>s1. case map_of upf ''planCostShares'' of
                        None \<Rightarrow> (None, s1)
                      | Some v \<Rightarrow> upsert_identified pid ''planCostShares'' v s1)"
    by (cases "map_of upf ''planCostShares''") (simp_all add: sends_skip sends_upsert_identified)
  then have g: "sends (child_upsert_of pid) ?g"
    by (rule sends_then [OF _ sends_upsert_linked_services])
  have "patch_plan pid u =
      (\<lambda>s. then_do (upsert_parent pid
                       (filter (\<lambda>kv. fst kv \<noteq> ''planCostShares'' \<and> fst kv \<noteq> ''linkedPlanServices'') upf) s) ?g)"
    using JObj by (simp add: patch_plan_def [abs_def])
  then show ?thesis
    using issued_then [OF sends_upsert_parent g] JObj by simp
qed (simp_all add: patch_plan_def issued_def upsert_parent_def)

text \<open>
  Claim C6. The requests of \<^verbatim>\<open>index_plan\<close> on a record with objectId \<open>pid\<close>, and of
  \<^verbatim>\<open>patch_plan\<close> for the plan \<open>pid\<close>, are those of the parent step \<^verbatim>\<open>_upsert_parent\<close> (one
  upsert at most) followed by upserts of children only, and every one of these upserts,
  whether the run ends normally or is cut short by an exception, is routed by \<open>pid\<close> and
  carries a relation tag of one of the three child relations whose parent is \<open>pid\<close>. This
  holds in every state of the index, reachable or not.
\<close>

theorem child_upserts_routed_to_parent:
  "(py_get r ''objectId'' = Inr pid \<and> py_truthy pid \<longrightarrow>
      (\<exists>cs. issued (index_plan r) s = issued (upsert_parent pid (parent_fields r)) s @ cs
            \<and> list_all (child_upsert_of pid) cs))
   \<and> (\<exists>cs. issued (patch_plan pid u) s =
              issued (upsert_parent pid
                        (filter (\<lambda>kv. fst kv \<noteq> ''planCostShares'' \<and> fst kv \<noteq> ''linkedPlanServices'')
                           (dict_fields u))) s @ cs
            \<and> list_all (child_upsert_of pid) cs)
   \<and> (\<forall>q. child_upsert_of pid q \<longrightarrow>
          (\<exists>i d p n. q = Index i (JObj d) p \<and> fst p = pid
                   \<and> map_of d ''rel'' = Some (JObj [(''name'', JStr n), (''parent'', pid)])))"
proof (intro conjI impI allI)
  assume "py_get r ''objectId'' = Inr pid \<and> py_truthy pid"
  then show "\<exists>cs. issued (index_plan r) s = issued (upsert_parent pid (parent_fields r)) s @ cs
            \<and> list_all (child_upsert_of pid) cs"
    using index_plan_children_routed by blast
next
  show "\<exists>cs. issued (patch_plan pid u) s =
              issued (upsert_parent pid
                        (filter (\<lambda>kv. fst kv \<noteq> ''planCostShares'' \<and> fst kv \<noteq> ''linkedPlanServices'')
                           (dict_fields u))) s @ cs
            \<and> list_all (child_upsert_of pid) cs"
    by (rule patch_plan_children_routed)
next
  fix q
  assume "child_upsert_of pid q"
  then show "\<exists>i d p n. q = Index i (JObj d) p \<and> fst p = pid
                   \<and> map_of d ''rel'' = Some (JObj [(''name'', JStr n), (''parent'', pid)])"
    by (cases "(pid, q)" rule: child_upsert_of.cases) auto
qed

theorem child_upserts_routed_to_parent_witness:
  "py_get (JObj [(''objectId'', JStr ''p1''), (''planType'', JStr ''hmo''),
                 (''planCostShares'', JObj [(''objectId'', JStr ''c1'')])]) ''objectId'' = Inr (JStr ''p1'')
   \<and> py_truthy (JStr ''p1'')
   \<and> child_upsert_of (JStr ''p1'')
        (Index (JStr ''c1'')
           (JObj [(''objectId'', JStr ''c1''),
                  (''rel'', JObj [(''name'', JStr ''planCostShares''), (''parent'', JStr ''p1'')])])
           (JStr ''p1'', ''wait_for''))
   \<and> (\<exists>cs. issued (index_plan (JObj [(''objectId'', JStr ''p1''), (''planType'', JStr ''hmo''),
                 (''planCostShares'', JObj [(''objectId'', JStr ''c1'')])]))
               \<lparr>docs = Map.empty, sent = [], faults = []\<rparr>
           = issued (upsert_parent (JStr ''p1'')
                (parent_fields (JObj [(''objectId'', JStr ''p1''), (''planType'', JStr ''hmo''),
                 (''planCostShares'', JObj [(''objectId'', JStr ''c1'')])])))
               \<lparr>docs = Map.empty, sent = [], faults = []\<rparr> @ cs
         \<and> list_all (child_upsert_of (JStr ''p1'')) cs)"
proof -
  let ?r = "JObj [(''objectId'', JStr ''p1''), (''planType'', JStr ''hmo''),
                 (''planCostShares'', JObj [(''objectId'', JStr ''c1'')])]"
  have a: "py_get ?r ''objectId'' = Inr (JStr ''p1'')"
    by simp
  have b: "py_truthy (JStr ''p1'')"
    by simp
  have c: "child_upsert_of (JStr ''p1'')
        (Index (JStr ''c1'')
           (JObj [(''objectId'', JStr ''c1''),
                  (''rel'', JObj [(''name'', JStr ''planCostShares''), (''parent'', JStr ''p1'')])])
           (JStr ''p1'', ''wait_for''))"
    by simp
  show ?thesis
    using a b c
      child_upserts_routed_to_parent [of ?r "JStr ''p1''" "\<lparr>docs = Map.empty, sent = [], faults = []\<rparr>" JNull]
    by blast
qed




end
